theory Spec2Isabelle
  imports Complex_Main "HOL-Library.Sublist" "HOL-Library.AList"
begin

section \<open>Python strings\<close>

text \<open>
  Strings are \<open>char list\<close>. The case mappings and the whitespace class are the ASCII
  parts of Python's \<open>str.upper\<close>, \<open>str.lower\<close> and \<open>str.strip\<close>; characters
  beyond ASCII are left alone.
\<close>

definition upper_char :: "char \<Rightarrow> char" where
  "upper_char c =
     (case map_of (zip ''abcdefghijklmnopqrstuvwxyz'' ''ABCDEFGHIJKLMNOPQRSTUVWXYZ'') c of
        Some u \<Rightarrow> u | None \<Rightarrow> c)"


definition upper :: "string \<Rightarrow> string" where
  "upper s = map upper_char s"


definition is_space :: "char \<Rightarrow> bool" where
  "is_space c = List.member [CHR '' '', CHR 0x09, CHR 0x0A, CHR 0x0B, CHR 0x0C, CHR 0x0D,
                             CHR 0x1C, CHR 0x1D, CHR 0x1E, CHR 0x1F] c"

definition py_strip :: "string \<Rightarrow> string" where
  "py_strip s = rev (dropWhile is_space (rev (dropWhile is_space s)))"

text \<open>\<open>p in s\<close> on strings.\<close>

fun contains :: "string \<Rightarrow> string \<Rightarrow> bool" where
  "contains p [] = (p = [])"
| "contains p (c # cs) = (prefix p (c # cs) \<or> contains p cs)"

definition startswith :: "string \<Rightarrow> string \<Rightarrow> bool" where
  "startswith s p = prefix p s"

definition endswith :: "string \<Rightarrow> string \<Rightarrow> bool" where
  "endswith s p = prefix (rev p) (rev s)"

text \<open>\<open>s.split(d, 1)\<close>: \<open>None\<close> when \<open>d\<close> does not occur in \<open>s\<close>.\<close>

fun split_at :: "char \<Rightarrow> string \<Rightarrow> (string \<times> string) option" where
  "split_at d [] = None"
| "split_at d (c # cs) =
     (if c = d then Some ([], cs)
      else (case split_at d cs of None \<Rightarrow> None | Some (a, b) \<Rightarrow> Some (c # a, b)))"

text \<open>\<open>s.split(" ", 2)\<close>.\<close>

definition split_sp2 :: "string \<Rightarrow> string list" where
  "split_sp2 s =
     (case split_at (CHR '' '') s of
        None \<Rightarrow> [s]
      | Some (a, r) \<Rightarrow>
          (case split_at (CHR '' '') r of
             None \<Rightarrow> [a, r]
           | Some (b, t) \<Rightarrow> [a, b, t]))"

text \<open>\<open>s.split(d)\<close> for a one-character separator.\<close>

fun split_all :: "char \<Rightarrow> string \<Rightarrow> string list" where
  "split_all d [] = [[]]"
| "split_all d (c # cs) =
     (if c = d then [] # split_all d cs
      else (case split_all d cs of [] \<Rightarrow> [[c]] | w # ws \<Rightarrow> (c # w) # ws))"

fun join_with :: "string \<Rightarrow> string list \<Rightarrow> string" where
  "join_with sep [] = []"
| "join_with sep [x] = x"
| "join_with sep (x # y # ys) = x @ sep @ join_with sep (y # ys)"

text \<open>
  \<open>s.replace(old, new)\<close> for a non-empty \<open>old\<close>: occurrences are replaced from the
  left and do not overlap. The counter is the number of characters of the occurrence
  just replaced that are still to be skipped.
\<close>

fun replace_from :: "string \<Rightarrow> string \<Rightarrow> nat \<Rightarrow> string \<Rightarrow> string" where
  "replace_from old new k [] = []"
| "replace_from old new (Suc k) (c # cs) = replace_from old new k cs"
| "replace_from old new 0 (c # cs) =
     (if prefix old (c # cs) then new @ replace_from old new (length old - 1) cs
      else c # replace_from old new 0 cs)"

definition py_replace :: "string \<Rightarrow> string \<Rightarrow> string \<Rightarrow> string" where
  "py_replace old new s = replace_from old new 0 s"

text \<open>\<open>str(n)\<close> for an integer.\<close>

definition digit_char :: "nat \<Rightarrow> char" where
  "digit_char n = ''0123456789'' ! (n mod 10)"

function show_nat :: "nat \<Rightarrow> string" where
  "show_nat n = (if n < 10 then [digit_char n] else show_nat (n div 10) @ [digit_char n])"
  by pat_completeness auto
termination
  by (relation "measure id") auto

declare show_nat.simps [simp del]

definition show_int :: "int \<Rightarrow> string" where
  "show_int i = (if i < 0 then CHR ''-'' # show_nat (nat (- i)) else show_nat (nat i))"

text \<open>
  A Python float that is finite is a dyadic rational; it is modelled by its exact value.
  \<open>f"{x:.df}"\<close> prints that value rounded to \<open>d\<close> decimals, ties to even, with the sign
  of \<open>x\<close> (NaN, the infinities and the negative zero are not represented).
\<close>

definition round_half_even :: "rat \<Rightarrow> nat" where
  "round_half_even s =
     (let f = \<lfloor>s\<rfloor>; r = s - of_int f in
      nat (if r < 1 / 2 then f else if 1 / 2 < r then f + 1 else if even f then f else f + 1))"

definition zfill :: "nat \<Rightarrow> string \<Rightarrow> string" where
  "zfill d s = replicate (d - length s) (CHR ''0'') @ s"

definition fmt_fixed :: "nat \<Rightarrow> rat \<Rightarrow> string" where
  "fmt_fixed d x =
     (let q = round_half_even (\<bar>x\<bar> * 10 ^ d) in
      (if x < 0 then ''-'' else '''') @ show_nat (q div 10 ^ d) @ ''.'' @
      zfill d (show_nat (q mod 10 ^ d)))"

section \<open>Paths and the file system\<close>

definition basename :: "string \<Rightarrow> string" where
  "basename p = rev (takeWhile (\<lambda>c. c \<noteq> CHR ''/'') (rev p))"

definition path_join :: "string \<Rightarrow> string \<Rightarrow> string" where
  "path_join a b =
     (if startswith b ''/'' then b
      else if a = [] \<or> endswith a ''/'' then a @ b
      else a @ ''/'' @ b)"

text \<open>
  A file is seen through the two interfaces the plugin uses: \<open>readline\<close> (the raw first
  line), \<open>csv.reader\<close> (the sequence of records) and \<open>os.path.getsize\<close> (the number of
  bytes). \<open>csv.writer\<close> and \<open>csv.reader\<close> are the standard library's: a record written
  with \<open>writerow\<close> at the end of a file that ends with a line terminator is the record
  read back.
\<close>

type_synonym row = "string list"

record csv_file =
  first_line :: string
  records :: "row list"
  nbytes :: nat

text \<open>\<open>csv.writer\<close> with the default dialect: minimal quoting, terminator CR LF.\<close>

definition needs_quote :: "string \<Rightarrow> bool" where
  "needs_quote f = list_ex (\<lambda>c. List.member [CHR '','', CHR 0x22, CHR 0x0D, CHR 0x0A] c) f"

definition csv_field :: "string \<Rightarrow> string" where
  "csv_field f =
     (if needs_quote f
      then [CHR 0x22] @ concat (map (\<lambda>c. if c = CHR 0x22 then [c, c] else [c]) f) @ [CHR 0x22]
      else f)"

definition csv_writerow :: "row \<Rightarrow> string" where
  "csv_writerow r =
     (if r = [[]] then [CHR 0x22, CHR 0x22] else join_with '','' (map csv_field r))
     @ [CHR 0x0D, CHR 0x0A]"

text \<open>
  A node of the file system: a regular file, or something else (a directory, a device),
  with its modification time. The file system maps full paths to nodes; the order of the
  list is the order in which \<open>os.listdir\<close> reports entries.
\<close>

record fnode =
  regular :: bool
  mtime :: int
  body :: csv_file

type_synonym filesys = "(string \<times> fnode) list"

text \<open>\<open>open(path, 'w')\<close> and \<open>open(path, 'a')\<close> fail on a path that is not a regular file.\<close>

definition writable :: "filesys \<Rightarrow> string \<Rightarrow> bool" where
  "writable fs p = (case map_of fs p of None \<Rightarrow> True | Some n \<Rightarrow> regular n)"

text \<open>
  \<open>shutil.move(src, dst)\<close>: a rename; into \<open>dst\<close> when \<open>dst\<close> is a directory, where an
  existing entry of the same name is an error.
\<close>

definition fs_move :: "string \<Rightarrow> string \<Rightarrow> filesys \<Rightarrow> filesys option" where
  "fs_move src dst fs =
     (case map_of fs src of
        None \<Rightarrow> None
      | Some n \<Rightarrow>
          (case map_of fs dst of
             None \<Rightarrow> Some (AList.update dst n (AList.delete src fs))
           | Some d \<Rightarrow>
               if regular d \<or> src = dst then Some (AList.update dst n (AList.delete src fs))
               else if map_of fs (path_join dst (basename src)) \<noteq> None then None
               else Some (AList.update (path_join dst (basename src)) n (AList.delete src fs))))"

section \<open>The plugin\<close>

text \<open>
  The options the pipeline reads, the ledger \<open>self.data\<close> (address to first-seen time)
  and the file system.
\<close>

record plugin =
  devices_file :: string
  file_size :: int
  blacklist :: "string list"
  upload_path :: string
  uploaded_path :: string
  remove_on_success :: bool
  wigle_name :: string
  wigle_api_token :: string
  data :: "string \<rightharpoonup> string"
  fs :: filesys

subsection \<open>write_csv_header\<close>

definition pre_header :: string where
  "pre_header =
     ''WigleWifi-1.6,appRelease=1.0,model=RaspberryPi,release=jayofelony,'' @
     ''device=RaspberryPi,display=display,board=board,'' @
     ''brand=RaspberryPi,star=Sol,body=3,subBody=0'' @ [CHR 0x0A]"

definition header :: row where
  "header =
     [''MAC'', ''SSID'', ''AuthMode'', ''FirstSeen'', ''Channel'', ''Frequency'',
      ''RSSI'', ''CurrentLatitude'', ''CurrentLongitude'', ''AltitudeMeters'',
      ''AccuracyMeters'', ''RCOIs'', ''MfgrId'', ''Type'']"

text \<open>The record \<open>csv.reader\<close> yields for the preamble line.\<close>

definition preamble_rec :: row where
  "preamble_rec = split_all (CHR '','') (butlast pre_header)"

definition header_file :: csv_file where
  "header_file =
     \<lparr>first_line = pre_header, records = [preamble_rec, header],
      nbytes = length pre_header + length (csv_writerow header)\<rparr>"

text \<open>
  \<open>open_ok\<close> is whether the operating system lets the file be opened for writing; a failure
  is logged and the file system is left as it was.
\<close>

definition write_csv_header :: "bool \<Rightarrow> int \<Rightarrow> plugin \<Rightarrow> plugin" where
  "write_csv_header open_ok now st =
     (if open_ok \<and> writable (fs st) (devices_file st)
      then st\<lparr>fs := AList.update (devices_file st)
                      \<lparr>regular = True, mtime = now, body = header_file\<rparr> (fs st)\<rparr>
      else st)"

subsection \<open>scan\<close>

text \<open>
  A position fix: latitude, longitude, altitude, accuracy.
\<close>

type_synonym gps_fix = "rat \<times> rat \<times> rat \<times> rat"

datatype devtype = BT | BLE

fun devtype_str :: "devtype \<Rightarrow> string" where
  "devtype_str BT = ''BT''"
| "devtype_str BLE = ''BLE''"

text \<open>
  What the outside world contributes to the handling of one listed device: the results of
  \<open>get_device_manufacturer\<close>, \<open>get_device_rssi\<close> and \<open>get_device_type\<close> (lookups
  through \<open>bluetoothctl info\<close>, each with its own default), whether the operating system
  lets the row be appended, and the clock at the write.
\<close>

record dev_env =
  mfgr :: string
  rssi :: int
  dtype :: devtype
  append_ok :: bool
  wtime :: int

text \<open>The row \<open>scan\<close> hands to \<open>writer.writerow\<close>.\<close>

definition device_row :: "gps_fix \<Rightarrow> string \<Rightarrow> string \<Rightarrow> string \<Rightarrow> dev_env \<Rightarrow> row" where
  "device_row fx mac name first_seen env =
     (case fx of (lat, lon, alt, acc) \<Rightarrow>
        [mac, name, ''Misc ['' @ devtype_str (dtype env) @ '']'', first_seen,
         show_int 0, show_int 0, show_int (rssi env),
         fmt_fixed 9 lat, fmt_fixed 9 lon, fmt_fixed 1 alt, fmt_fixed 6 acc,
         [], mfgr env, devtype_str (dtype env)])"

text \<open>
  \<open>open(path, 'a')\<close> followed by \<open>writerow\<close>: the file is created when it is missing;
  \<open>None\<close> is the I/O error.
\<close>

definition append_row :: "bool \<Rightarrow> int \<Rightarrow> row \<Rightarrow> string \<Rightarrow> filesys \<Rightarrow> filesys option" where
  "append_row ok now r p fsys =
     (if \<not> ok then None
      else (case map_of fsys p of
              None \<Rightarrow>
                Some (AList.update p
                  \<lparr>regular = True, mtime = now,
                   body = \<lparr>first_line = csv_writerow r, records = [r],
                           nbytes = length (csv_writerow r)\<rparr>\<rparr> fsys)
            | Some n \<Rightarrow>
                if regular n
                then Some (AList.update p
                  (n\<lparr>mtime := now,
                     body := (body n)\<lparr>first_line :=
                                          (if first_line (body n) = [] then csv_writerow r
                                           else first_line (body n)),
                                       records := records (body n) @ [r],
                                       nbytes := nbytes (body n) + length (csv_writerow r)\<rparr>\<rparr>) fsys)
                else None))"

text \<open>
  One line of the output of \<open>bluetoothctl devices\<close>: the address (uppercased) and the
  name, or \<open>None\<close> when the loop skips the line.
\<close>

definition parse_device :: "string \<Rightarrow> (string \<times> string) option" where
  "parse_device line =
     (if \<not> contains ''Device '' line then None
      else (let parts = split_sp2 (py_strip line) in
            if length parts < 2 then None
            else Some (upper (parts ! 1),
                       if length parts > 2 then py_strip (parts ! 2) else [])))"

text \<open>The body of the loop over the lines, for one line.\<close>

definition scan_step :: "gps_fix \<Rightarrow> string \<Rightarrow> string \<times> dev_env \<Rightarrow> plugin \<Rightarrow> plugin" where
  "scan_step fx scan_time le st =
     (case parse_device (fst le) of
        None \<Rightarrow> st
      | Some (mac, name) \<Rightarrow>
          if List.member (blacklist st) mac then st
          else if data st mac \<noteq> None then st
          else (let st1 = st\<lparr>data := (data st)(mac \<mapsto> scan_time)\<rparr> in
                case append_row (append_ok (snd le)) (wtime (snd le))
                       (device_row fx mac name scan_time (snd le)) (devices_file st1) (fs st1) of
                  None \<Rightarrow> st1
                | Some fs' \<Rightarrow> st1\<lparr>fs := fs'\<rparr>))"

fun scan_loop :: "gps_fix \<Rightarrow> string \<Rightarrow> (string \<times> dev_env) list \<Rightarrow> plugin \<Rightarrow> plugin" where
  "scan_loop fx scan_time [] st = st"
| "scan_loop fx scan_time (le # les) st = scan_loop fx scan_time les (scan_step fx scan_time le st)"

subsection \<open>check_rollover\<close>

text \<open>
  The outside world at a rotation check: whether the upload directory exists, whether
  creating it, moving the file and opening the new file succeed, and the clock (the
  formatted timestamp of the name and the time of the write).
\<close>

record rollover_env =
  upload_dir_exists :: bool
  makedirs_ok :: bool
  move_ok :: bool
  header_open_ok :: bool
  ts :: string
  rtime :: int

definition rolled_name :: "string \<Rightarrow> string \<Rightarrow> string" where
  "rolled_name file_path stamp =
     py_replace ''.csv'' (''_'' @ stamp @ ''.csv'') (basename file_path)"

definition check_rollover :: "rollover_env \<Rightarrow> plugin \<Rightarrow> plugin" where
  "check_rollover env st =
     (if \<not> upload_dir_exists env \<and> \<not> makedirs_ok env then st
      else (case map_of (fs st) (devices_file st) of
              None \<Rightarrow> st
            | Some n \<Rightarrow>
                if file_size st \<le> int (nbytes (body n))
                then (case (if move_ok env
                            then fs_move (devices_file st)
                                   (path_join (upload_path st) (rolled_name (devices_file st) (ts env)))
                                   (fs st)
                            else None) of
                        None \<Rightarrow> st
                      | Some fs' \<Rightarrow>
                          (write_csv_header (header_open_ok env) (rtime env) (st\<lparr>fs := fs'\<rparr>))
                            \<lparr>data := Map.empty\<rparr>)
                else st))"

subsection \<open>get_gps_coords\<close>

text \<open>
  JSON values as \<open>json.loads\<close> returns them; an object is its list of members, looked
  up by key. Numbers are modelled by their exact values.
\<close>

datatype json =
  JNull | JBool bool | JNum rat | JStr string | JArr "json list" | JObj "(string \<times> json) list"

text \<open>
  The two conversions of the standard library the plugin relies on: \<open>json.loads\<close> and
  \<open>float\<close> on a string; \<open>None\<close> is the exception each raises on a text it rejects.
\<close>

record pylib =
  json_loads :: "string \<Rightarrow> json option"
  str_float :: "string \<Rightarrow> rat option"

datatype py_error = ValueError | TypeError | OSError

text \<open>
  What the socket delivers: the connection (or the watch command) fails, or a sequence of
  \<open>recv\<close> results arrives before the 2.5 second deadline; each is a decoded chunk or an
  exception (the 3 second socket timeout among them). An empty chunk is the end of the
  stream.
\<close>

datatype recv = Chunk string | RecvError

datatype gps_session = ConnectError | Connected "recv list"

text \<open>The members of a parsed line, when it is an object whose class is TPV.\<close>

definition tpv_of :: "json \<Rightarrow> (string \<times> json) list option" where
  "tpv_of j =
     (case j of
        JObj kv \<Rightarrow> if map_of kv ''class'' = Some (JStr ''TPV'') then Some kv else None
      | _ \<Rightarrow> None)"

lemma split_at_shorter: "split_at d s = Some (a, b) \<Longrightarrow> length b < length s"
  by (induction s arbitrary: a) (auto split: if_splits option.splits)

text \<open>
  The inner loop over the complete lines of the buffer: the first TPV object, if any, and
  the rest of the buffer. A line that does not parse, or is not an object, is passed over.
\<close>

function scan_buf :: "pylib \<Rightarrow> string \<Rightarrow> (string \<times> json) list option \<times> string" where
  "scan_buf lib buf =
     (case split_at (CHR 0x0A) buf of
        None \<Rightarrow> (None, buf)
      | Some (line, rest) \<Rightarrow>
          (case json_loads lib line of
             None \<Rightarrow> scan_buf lib rest
           | Some obj \<Rightarrow>
               (case tpv_of obj of
                  None \<Rightarrow> scan_buf lib rest
                | Some kv \<Rightarrow> (Some kv, rest))))"
  by pat_completeness auto
termination
  by (relation "measure (\<lambda>(lib, buf). length buf)") (auto dest: split_at_shorter)

declare scan_buf.simps [simp del]

fun read_loop :: "pylib \<Rightarrow> string \<Rightarrow> recv list \<Rightarrow> (string \<times> json) list option" where
  "read_loop lib buf [] = None"
| "read_loop lib buf (RecvError # es) = None"
| "read_loop lib buf (Chunk c # es) =
     (if c = [] then None
      else (case scan_buf lib (buf @ c) of
              (Some kv, rest) \<Rightarrow> Some kv
            | (None, rest) \<Rightarrow> read_loop lib rest es))"

fun truthy :: "json \<Rightarrow> bool" where
  "truthy JNull = False"
| "truthy (JBool b) = b"
| "truthy (JNum r) = (r \<noteq> 0)"
| "truthy (JStr s) = (s \<noteq> [])"
| "truthy (JArr xs) = (xs \<noteq> [])"
| "truthy (JObj kv) = (kv \<noteq> [])"

text \<open>\<open>d.get(k, default)\<close> and \<open>v or default\<close>.\<close>

definition dict_get :: "(string \<times> json) list \<Rightarrow> string \<Rightarrow> json \<Rightarrow> json" where
  "dict_get kv k d = (case map_of kv k of None \<Rightarrow> d | Some v \<Rightarrow> v)"

definition py_or :: "json \<Rightarrow> json \<Rightarrow> json" where
  "py_or v d = (if truthy v then v else d)"

fun py_float :: "pylib \<Rightarrow> json \<Rightarrow> py_error + rat" where
  "py_float lib (JNum r) = Inr r"
| "py_float lib (JBool b) = Inr (if b then 1 else 0)"
| "py_float lib (JStr s) = (case str_float lib s of None \<Rightarrow> Inl ValueError | Some r \<Rightarrow> Inr r)"
| "py_float lib JNull = Inl TypeError"
| "py_float lib (JArr xs) = Inl TypeError"
| "py_float lib (JObj kv) = Inl TypeError"

definition zero_fix :: gps_fix where
  "zero_fix = (0, 0, 0, 0)"

text \<open>The four conversions after the socket is closed; they are outside the \<open>try\<close>.\<close>

definition fix_of_tpv :: "pylib \<Rightarrow> (string \<times> json) list \<Rightarrow> py_error + gps_fix" where
  "fix_of_tpv lib kv =
     (case py_float lib (py_or (dict_get kv ''lat'' (JNum 0)) (JNum 0)) of
        Inl e \<Rightarrow> Inl e
      | Inr lat \<Rightarrow>
     (case py_float lib (py_or (dict_get kv ''lon'' (JNum 0)) (JNum 0)) of
        Inl e \<Rightarrow> Inl e
      | Inr lon \<Rightarrow>
     (case py_float lib (dict_get kv ''altMSL'' (py_or (dict_get kv ''alt'' (JNum 0)) (JNum 0))) of
        Inl e \<Rightarrow> Inl e
      | Inr alt \<Rightarrow>
     (case py_float lib (dict_get kv ''epx'' (py_or (dict_get kv ''eps'' (JNum 0)) (JNum 0))) of
        Inl e \<Rightarrow> Inl e
      | Inr acc \<Rightarrow> Inr (lat, lon, alt, acc)))))"

definition gps_data_of :: "pylib \<Rightarrow> gps_session \<Rightarrow> (string \<times> json) list option" where
  "gps_data_of lib sess =
     (case sess of ConnectError \<Rightarrow> None | Connected es \<Rightarrow> read_loop lib [] es)"

definition get_gps_coords :: "pylib \<Rightarrow> gps_session \<Rightarrow> py_error + gps_fix" where
  "get_gps_coords lib sess =
     (case gps_data_of lib sess of
        None \<Rightarrow> Inr zero_fix
      | Some kv \<Rightarrow> if truthy (JObj kv) then fix_of_tpv lib kv else Inr zero_fix)"

subsection \<open>One scan, and the scans of the scheduler\<close>

text \<open>
  A scan tick: the location session, the clock reading \<open>scan_time\<close>, the lines of
  \<open>output.strip().splitlines()\<close> (none when the listing fails or is empty), each with
  what the outside world contributes should the line lead to a new device, and the
  outside world at the rotation check.
\<close>

record tick =
  session :: gps_session
  scan_time :: string
  output_lines :: "(string \<times> dev_env) list"
  renv :: rollover_env

definition scan :: "pylib \<Rightarrow> tick \<Rightarrow> plugin \<Rightarrow> py_error + plugin" where
  "scan lib tk st =
     (case get_gps_coords lib (session tk) of
        Inl e \<Rightarrow> Inl e
      | Inr fx \<Rightarrow>
          if output_lines tk = [] then Inr (check_rollover (renv tk) st)
          else Inr (check_rollover (renv tk)
                      (scan_loop fx (scan_time tk) (output_lines tk) st)))"

text \<open>\<open>on_ui_update\<close> runs the scan and logs an exception that escapes it.\<close>

definition scan_tick :: "pylib \<Rightarrow> tick \<Rightarrow> plugin \<Rightarrow> plugin" where
  "scan_tick lib tk st = (case scan lib tk st of Inl e \<Rightarrow> st | Inr st' \<Rightarrow> st')"

fun run_scans :: "pylib \<Rightarrow> tick list \<Rightarrow> plugin \<Rightarrow> plugin" where
  "run_scans lib [] st = st"
| "run_scans lib (tk # tks) st = run_scans lib tks (scan_tick lib tk st)"

subsection \<open>_load_existing_devices\<close>

text \<open>
  The outside world at the bootstrap: whether the file can be opened and read, and the
  clock reading taken for the data row of a given index (rows shorter than four fields
  get it as their first-seen time).
\<close>

record load_env =
  read_ok :: bool
  utcnow :: "nat \<Rightarrow> string"

text \<open>The loop over the data rows.\<close>

fun load_rows :: "(nat \<Rightarrow> string) \<Rightarrow> nat \<Rightarrow> row list \<Rightarrow> (string \<rightharpoonup> string) \<Rightarrow> (string \<rightharpoonup> string)" where
  "load_rows clock i [] d = d"
| "load_rows clock i (r # rs) d =
     load_rows clock (Suc i) rs
       (if 0 < length r
        then (let mac = upper (py_strip (r ! 0)) in
              if mac \<noteq> [] \<and> mac \<noteq> ''MAC''
              then (if d mac = None
                    then d(mac \<mapsto> (if 3 < length r then r ! 3 else clock i))
                    else d)
              else d)
        else d)"

text \<open>
  An exception (the file cannot be opened or read) empties the ledger; a missing or
  foreign header row returns with the ledger as it was.
\<close>

definition load_existing_devices :: "load_env \<Rightarrow> plugin \<Rightarrow> plugin" where
  "load_existing_devices env st =
     (case (if read_ok env then map_of (fs st) (devices_file st) else None) of
        None \<Rightarrow> st\<lparr>data := Map.empty\<rparr>
      | Some n \<Rightarrow>
          if \<not> regular n then st\<lparr>data := Map.empty\<rparr>
          else (case (if startswith (first_line (body n)) ''WigleWifi''
                      then drop 1 (records (body n)) else records (body n)) of
                  [] \<Rightarrow> st
                | h # rows \<Rightarrow>
                    if h = [] \<or> h ! 0 \<noteq> ''MAC'' then st
                    else st\<lparr>data := load_rows (utcnow env) 0 rows (data st)\<rparr>))"

subsection \<open>on_loaded\<close>

text \<open>
  The blacklist is uppercased, the directories are created (a failure there is not
  caught), and the active file is either started or read back. The copy of the upload
  options from the configuration is not modelled: the state holds them once.
\<close>

record loaded_env =
  dirs_ok :: bool
  hdr_open_ok :: bool
  hdr_time :: int
  lenv :: load_env

definition on_loaded :: "loaded_env \<Rightarrow> plugin \<Rightarrow> py_error + plugin" where
  "on_loaded env st =
     (let st1 = st\<lparr>blacklist := map upper (blacklist st)\<rparr> in
      if \<not> dirs_ok env then Inl OSError
      else if map_of (fs st1) (devices_file st1) = None
      then Inr (write_csv_header (hdr_open_ok env) (hdr_time env) st1)
      else Inr (load_existing_devices (lenv env) st1))"

subsection \<open>_list_csv_files\<close>







subsection \<open>_upload_file\<close>







subsection \<open>_upload_all\<close>



subsection \<open>Concurrent calls of \<open>_upload_all\<close>\<close>





section \<open>Notions for the properties\<close>

definition active_records :: "plugin \<Rightarrow> row list" where
  "active_records st =
     (case map_of (fs st) (devices_file st) of None \<Rightarrow> [] | Some n \<Rightarrow> records (body n))"

definition row_addr :: "row \<Rightarrow> string" where
  "row_addr r = (case r of [] \<Rightarrow> [] | a # _ \<Rightarrow> a)"

definition data_rows :: "plugin \<Rightarrow> row list" where
  "data_rows st = filter (\<lambda>r. r \<noteq> preamble_rec \<and> r \<noteq> header) (active_records st)"

definition epoch_inv :: "plugin \<Rightarrow> bool" where
  "epoch_inv st =
     (distinct (map row_addr (data_rows st)) \<and>
      list_all (\<lambda>r. data st (row_addr r) \<noteq> None \<and> upper (row_addr r) = row_addr r)
        (data_rows st))"

definition rotates :: "rollover_env \<Rightarrow> plugin \<Rightarrow> bool" where
  "rotates env st =
     ((upload_dir_exists env \<or> makedirs_ok env) \<and>
      (case map_of (fs st) (devices_file st) of
         None \<Rightarrow> False
       | Some n \<Rightarrow>
           file_size st \<le> int (nbytes (body n)) \<and> move_ok env \<and>
           fs_move (devices_file st)
             (path_join (upload_path st) (rolled_name (devices_file st) (ts env))) (fs st) \<noteq> None))"

definition mac_rows :: "string \<Rightarrow> plugin \<Rightarrow> row list" where
  "mac_rows mac st = filter (\<lambda>r. row_addr r = mac) (data_rows st)"

definition tick_rotates :: "pylib \<Rightarrow> tick \<Rightarrow> plugin \<Rightarrow> bool" where
  "tick_rotates lib tk st =
     (case get_gps_coords lib (session tk) of
        Inl e \<Rightarrow> False
      | Inr fx \<Rightarrow> rotates (renv tk) (scan_loop fx (scan_time tk) (output_lines tk) st))"

fun same_epoch :: "pylib \<Rightarrow> tick list \<Rightarrow> plugin \<Rightarrow> bool" where
  "same_epoch lib [] st = True"
| "same_epoch lib (tk # tks) st =
     (\<not> tick_rotates lib tk st \<and> same_epoch lib tks (scan_tick lib tk st))"

text \<open>
  What the socket has delivered when the reading stops (at the deadline, an exception or
  the end of the stream), its complete lines, and a line that does not yield a fix: it
  does not parse, or the value is not an object of class TPV.
\<close>

fun received :: "recv list \<Rightarrow> string" where
  "received [] = []"
| "received (RecvError # es) = []"
| "received (Chunk c # es) = (if c = [] then [] else c @ received es)"

definition complete_lines :: "string \<Rightarrow> string list" where
  "complete_lines s = butlast (split_all (CHR 0x0A) s)"

definition no_tpv :: "pylib \<Rightarrow> string \<Rightarrow> bool" where
  "no_tpv lib line = (case json_loads lib line of None \<Rightarrow> True | Some obj \<Rightarrow> tpv_of obj = None)"

text \<open>
  The key under which \<open>_load_existing_devices\<close> files a row, and the rows it files: those
  with at least one field whose key is neither empty nor \<open>MAC\<close>.
\<close>

definition row_key :: "row \<Rightarrow> string" where
  "row_key r = upper (py_strip (r ! 0))"

definition tracked :: "row \<Rightarrow> bool" where
  "tracked r = (r \<noteq> [] \<and> row_key r \<noteq> [] \<and> row_key r \<noteq> ''MAC'')"




subsection \<open>Concrete inputs\<close>

text \<open>The state \<open>__init__\<close> builds, with nothing on disk.\<close>

definition init_plugin :: plugin where
  "init_plugin =
     \<lparr>devices_file = ''/root/handshakes/bluetooth_devices.csv'',
      file_size = 15000,
      blacklist = [''AA:BB:CC:DD:EE:FF'', ''11:22:33:44:55:66''],
      upload_path = ''/root/handshakes/toupload/'',
      uploaded_path = ''/root/handshakes/uploaded/'',
      remove_on_success = True,
      wigle_name = [],
      wigle_api_token = [],
      data = Map.empty,
      fs = []\<rparr>"

definition ex_lib :: pylib where
  "ex_lib =
     \<lparr>json_loads = (\<lambda>s. if s = ''{\"class\":\"TPV\"}'' then Some (JObj [(''class'', JStr ''TPV'')])
                         else if s = ''{\"class\":\"SKY\"}'' then Some (JObj [(''class'', JStr ''SKY'')])
                         else None),
      str_float = (\<lambda>s. None)\<rparr>"

definition ex_dev :: "bool \<Rightarrow> dev_env" where
  "ex_dev ok = \<lparr>mfgr = [], rssi = - 60, dtype = BLE, append_ok = ok, wtime = 100\<rparr>"

definition ex_renv :: rollover_env where
  "ex_renv = \<lparr>upload_dir_exists = True, makedirs_ok = True, move_ok = True,
              header_open_ok = True, ts = ''20240101_120000'', rtime = 200\<rparr>"

definition ex_tick :: "(string \<times> dev_env) list \<Rightarrow> tick" where
  "ex_tick ls = \<lparr>session = ConnectError, scan_time = ''2024-01-01 12:00:00'',
                 output_lines = ls, renv = ex_renv\<rparr>"

definition ex_line :: string where
  "ex_line = ''Device AA:BB:CC:11:22:33 Phone''"

definition ex_mac :: string where
  "ex_mac = ''AA:BB:CC:11:22:33''"

subsection \<open>An upload directory\<close>

text \<open>
  Two pending files (the newer one with an upper-case extension), a file of another kind,
  a directory named like a csv file, and the active log outside the upload directory.
\<close>

definition ex_node :: "bool \<Rightarrow> int \<Rightarrow> fnode" where
  "ex_node reg t = \<lparr>regular = reg, mtime = t, body = header_file\<rparr>"






subsection \<open>An active file above the threshold\<close>

definition ex_active :: plugin where
  "ex_active =
     init_plugin\<lparr>file_size := 100, data := [ex_mac \<mapsto> ''2024-01-01 11:00:00''],
                 fs := [(''/root/handshakes/bluetooth_devices.csv'', ex_node True 90)]\<rparr>"

definition ex_rolled :: string where
  "ex_rolled = ''/root/handshakes/toupload/bluetooth_devices_20240101_120000.csv''"

subsection \<open>A location session without a fix\<close>

definition ex_chunks :: "recv list" where
  "ex_chunks =
     [Chunk (''{\"class\":\"SKY\"}'' @ [CHR 0x0A] @ ''{\"class\":''),
      Chunk (''oops'' @ [CHR 0x0A] @ ''{\"class\":\"TPV\"}''),
      RecvError]"

subsection \<open>The active file after one device\<close>

definition ex_row :: row where
  "ex_row = [''AA:BB:CC:11:22:33'', ''Phone'', ''Misc [BLE]'', ''2024-01-01 12:00:00'', ''0'', ''0'',
             ''-60'', ''0.000000000'', ''0.000000000'', ''0.0'', ''0.000000'', [], [], ''BLE'']"

definition ex_logged :: plugin where
  "ex_logged =
     init_plugin\<lparr>data := [ex_mac \<mapsto> ''2024-01-01 12:00:00''],
                 fs := [(''/root/handshakes/bluetooth_devices.csv'',
                         \<lparr>regular = True, mtime = 100,
                          body = \<lparr>first_line = csv_writerow ex_row, records = [ex_row],
                                  nbytes = length (csv_writerow ex_row)\<rparr>\<rparr>)]\<rparr>"

subsection \<open>An existing log\<close>

text \<open>
  A full row, an empty row, a row of four fields with a lower-case address in blanks,
  and a repeated header.
\<close>

definition ex_watch :: row where
  "ex_watch = ['' aa:bb:cc:dd:ee:01 '', ''Watch'', ''Misc [BT]'', ''2024-01-01 12:30:00'']"

definition ex_rows :: "row list" where
  "ex_rows = [ex_row, [], ex_watch, [''MAC'', ''SSID'']]"

definition ex_existing :: "row list \<Rightarrow> plugin" where
  "ex_existing rows =
     init_plugin\<lparr>fs := [(''/root/handshakes/bluetooth_devices.csv'',
                          \<lparr>regular = True, mtime = 100,
                           body = \<lparr>first_line = pre_header,
                                   records = preamble_rec # header # rows,
                                   nbytes = 1000\<rparr>\<rparr>)]\<rparr>"

definition ex_lenv :: load_env where
  "ex_lenv = \<lparr>read_ok = True, utcnow = (\<lambda>i. ''2024-02-02 00:00:00'')\<rparr>"

subsection \<open>A blacklisted device\<close>

text \<open>
  A configuration with a lower-case blacklist entry, the state \<open>on_loaded\<close> makes of it
  with nothing on disk, and a row and a listing line for a blacklisted address.
\<close>

definition ex_black :: row where
  "ex_black = [''AA:BB:CC:DD:EE:FF'', ''Speaker'', ''Misc [BT]'', ''2024-01-01 10:00:00'']"

definition ex_black_line :: string where
  "ex_black_line = ''Device aa:bb:cc:dd:ee:ff Speaker''"

definition ex_oenv :: loaded_env where
  "ex_oenv = \<lparr>dirs_ok = True, hdr_open_ok = True, hdr_time = 10, lenv = ex_lenv\<rparr>"

definition ex_config :: plugin where
  "ex_config = init_plugin\<lparr>blacklist := [''aa:bb:cc:dd:ee:ff'']\<rparr>"

definition ex_started :: plugin where
  "ex_started =
     init_plugin\<lparr>blacklist := [''AA:BB:CC:DD:EE:FF''],
                 fs := [(''/root/handshakes/bluetooth_devices.csv'',
                         \<lparr>regular = True, mtime = 10, body = header_file\<rparr>)]\<rparr>"

subsection \<open>Threads at the lock\<close>




section \<open>Lemmas\<close>

lemma upper_char_idem: "upper_char (upper_char c) = upper_char c"
  by (simp add: upper_char_def)

lemma upper_idem [simp]: "upper (upper s) = upper s"
  by (simp add: upper_def upper_char_idem)

lemma map_of_append_row:
  "append_row ok now r p fsys = Some fs' \<Longrightarrow>
   map_of fs' q = (if q = p then map_of fs' p else map_of fsys q)"
  by (auto simp: append_row_def update_conv' split: if_splits option.splits)

lemma records_append_row:
  "append_row ok now r p fsys = Some fs' \<Longrightarrow>
   \<exists>n. map_of fs' p = Some n \<and> regular n \<and>
       records (body n) = (case map_of fsys p of None \<Rightarrow> [] | Some m \<Rightarrow> records (body m)) @ [r]"
  by (auto simp: append_row_def update_conv' split: if_splits option.splits)

lemma scan_step_devices_file [simp]: "devices_file (scan_step fx t le st) = devices_file st"
  by (simp add: scan_step_def Let_def split: option.splits prod.splits)

lemma scan_step_blacklist [simp]: "blacklist (scan_step fx t le st) = blacklist st"
  by (simp add: scan_step_def Let_def split: option.splits prod.splits)

lemma scan_loop_devices_file [simp]: "devices_file (scan_loop fx t les st) = devices_file st"
  by (induction les arbitrary: st) simp_all

lemma scan_loop_blacklist [simp]: "blacklist (scan_loop fx t les st) = blacklist st"
  by (induction les arbitrary: st) simp_all

lemma row_addr_device_row [simp]: "row_addr (device_row fx mac name t env) = mac"
  by (simp add: device_row_def row_addr_def split: prod.splits)

lemma scan_step_cases:
  obtains (skip) "scan_step fx t le st = st"
  | (fail) mac name where "parse_device (fst le) = Some (mac, name)"
      "\<not> List.member (blacklist st) mac" "data st mac = None"
      "append_row (append_ok (snd le)) (wtime (snd le)) (device_row fx mac name t (snd le))
         (devices_file st) (fs st) = None"
      "scan_step fx t le st = st\<lparr>data := (data st)(mac \<mapsto> t)\<rparr>"
  | (row) mac name fs' where "parse_device (fst le) = Some (mac, name)"
      "\<not> List.member (blacklist st) mac" "data st mac = None"
      "append_row (append_ok (snd le)) (wtime (snd le)) (device_row fx mac name t (snd le))
         (devices_file st) (fs st) = Some fs'"
      "scan_step fx t le st = st\<lparr>data := (data st)(mac \<mapsto> t), fs := fs'\<rparr>"
proof (cases "parse_device (fst le)")
  case None
  then have "scan_step fx t le st = st" by (simp add: scan_step_def)
  then show ?thesis by (rule skip)
next
  case (Some mn)
  obtain mac name where mn: "mn = (mac, name)" by (cases mn)
  show ?thesis
  proof (cases "List.member (blacklist st) mac \<or> data st mac \<noteq> None")
    case True
    then have "scan_step fx t le st = st" using Some mn by (auto simp: scan_step_def)
    then show ?thesis by (rule skip)
  next
    case False
    show ?thesis
    proof (cases "append_row (append_ok (snd le)) (wtime (snd le))
                    (device_row fx mac name t (snd le)) (devices_file st) (fs st)")
      case None
      show ?thesis
        by (rule fail [of mac name]) (use Some mn False None in \<open>auto simp: scan_step_def Let_def\<close>)
    next
      case (Some fs')
      show ?thesis
        by (rule row [of mac name fs'])
           (use \<open>parse_device (fst le) = Some mn\<close> mn False Some in \<open>auto simp: scan_step_def Let_def\<close>)
    qed
  qed
qed


lemma length_preamble_rec: "length preamble_rec = 11"
  by (simp add: preamble_rec_def pre_header_def)

lemma device_row_not_meta:
  "device_row fx mac name t env \<noteq> preamble_rec" "device_row fx mac name t env \<noteq> header"
proof -
  have "length (device_row fx mac name t env) = 14"
    by (simp add: device_row_def split: prod.splits)
  then show "device_row fx mac name t env \<noteq> preamble_rec"
    using length_preamble_rec by auto
  show "device_row fx mac name t env \<noteq> header"
    by (simp add: device_row_def header_def split: prod.splits)
qed

lemma parse_device_upper: "parse_device l = Some (mac, name) \<Longrightarrow> upper mac = mac"
  by (auto simp: parse_device_def Let_def split: if_splits)

lemma active_records_step:
  "active_records (scan_step fx t le st) = active_records st \<or>
   (\<exists>mac name. parse_device (fst le) = Some (mac, name) \<and> \<not> List.member (blacklist st) mac \<and>
      data st mac = None \<and> data (scan_step fx t le st) = (data st)(mac \<mapsto> t) \<and>
      active_records (scan_step fx t le st) = active_records st @ [device_row fx mac name t (snd le)])"
proof (cases rule: scan_step_cases [of fx t le st])
  case skip
  then show ?thesis by simp
next
  case (fail mac name)
  then show ?thesis by (simp add: active_records_def)
next
  case (row mac name fs')
  from records_append_row [OF row(4)] row show ?thesis
    by (auto simp: active_records_def split: option.splits)
qed

lemma data_scan_step_mono: "data st a \<noteq> None \<Longrightarrow> data (scan_step fx t le st) a = data st a"
  by (cases rule: scan_step_cases [of fx t le st]) auto

lemma data_scan_step_mono': "data st a = Some v \<Longrightarrow> data (scan_step fx t le st) a = Some v"
  using data_scan_step_mono [of st a fx t le] by simp

lemma epoch_inv_step: "epoch_inv st \<Longrightarrow> epoch_inv (scan_step fx t le st)"
proof -
  assume inv: "epoch_inv st"
  from active_records_step [of fx t le st] show ?thesis
  proof
    assume same: "active_records (scan_step fx t le st) = active_records st"
    then have "data_rows (scan_step fx t le st) = data_rows st" by (simp add: data_rows_def)
    with inv show ?thesis
      by (auto simp: epoch_inv_def list_all_iff data_scan_step_mono)
  next
    assume "\<exists>mac name. parse_device (fst le) = Some (mac, name) \<and> \<not> List.member (blacklist st) mac \<and>
      data st mac = None \<and> data (scan_step fx t le st) = (data st)(mac \<mapsto> t) \<and>
      active_records (scan_step fx t le st) = active_records st @ [device_row fx mac name t (snd le)]"
    then obtain mac name where p: "parse_device (fst le) = Some (mac, name)"
      and new: "data st mac = None" and d: "data (scan_step fx t le st) = (data st)(mac \<mapsto> t)"
      and r: "active_records (scan_step fx t le st) = active_records st @ [device_row fx mac name t (snd le)]"
      by blast
    have dr: "data_rows (scan_step fx t le st) = data_rows st @ [device_row fx mac name t (snd le)]"
      by (simp add: data_rows_def r device_row_not_meta)
    have "mac \<notin> set (map row_addr (data_rows st))"
      using inv new by (auto simp: epoch_inv_def list_all_iff)
    with inv show ?thesis
      by (auto simp: epoch_inv_def dr d list_all_iff parse_device_upper [OF p])
  qed
qed

lemma epoch_inv_loop: "epoch_inv st \<Longrightarrow> epoch_inv (scan_loop fx t les st)"
  by (induction les arbitrary: st) (simp_all add: epoch_inv_step)

lemma not_rotates: "\<not> rotates env st \<Longrightarrow> check_rollover env st = st"
  by (auto simp: rotates_def check_rollover_def split: option.splits)

lemma fs_move_src_gone:
  "fs_move src dst fsys = Some fs' \<Longrightarrow> src \<noteq> dst \<Longrightarrow> map_of fs' src = None"
  by (auto simp: fs_move_def update_conv' delete_conv' split: option.splits if_splits)

lemma active_records_header:
  "map_of (fs st) (devices_file st) = None \<Longrightarrow>
   active_records (write_csv_header ok now st) = (if ok then [preamble_rec, header] else [])"
  by (simp add: write_csv_header_def active_records_def writable_def update_conv' header_file_def)

lemma rotates_fresh:
  assumes "rotates env st"
    and "path_join (upload_path st) (rolled_name (devices_file st) (ts env)) \<noteq> devices_file st"
  shows "data (check_rollover env st) = Map.empty"
    and "active_records (check_rollover env st) = (if header_open_ok env then [preamble_rec, header] else [])"
proof -
  let ?dst = "path_join (upload_path st) (rolled_name (devices_file st) (ts env))"
  from assms(1) obtain n fs' where n: "map_of (fs st) (devices_file st) = Some n"
    and big: "file_size st \<le> int (nbytes (body n))" and mk: "upload_dir_exists env \<or> makedirs_ok env"
    and mv: "move_ok env" "fs_move (devices_file st) ?dst (fs st) = Some fs'"
    by (auto simp: rotates_def split: option.splits)
  have eq: "check_rollover env st =
      (write_csv_header (header_open_ok env) (rtime env) (st\<lparr>fs := fs'\<rparr>))\<lparr>data := Map.empty\<rparr>"
    using n big mk mv by (auto simp: check_rollover_def)
  show "data (check_rollover env st) = Map.empty" by (simp add: eq)
  have gone: "map_of (fs (st\<lparr>fs := fs'\<rparr>)) (devices_file (st\<lparr>fs := fs'\<rparr>)) = None"
    using fs_move_src_gone [OF mv(2)] assms(2) by simp
  have "active_records (check_rollover env st) =
        active_records (write_csv_header (header_open_ok env) (rtime env) (st\<lparr>fs := fs'\<rparr>))"
    by (simp add: eq active_records_def write_csv_header_def)
  then show "active_records (check_rollover env st) = (if header_open_ok env then [preamble_rec, header] else [])"
    using active_records_header [OF gone] by simp
qed

lemma epoch_inv_rollover:
  assumes "epoch_inv st"
    and "path_join (upload_path st) (rolled_name (devices_file st) (ts env)) \<noteq> devices_file st"
  shows "epoch_inv (check_rollover env st)"
proof (cases "rotates env st")
  case True
  from rotates_fresh [OF True assms(2)] show ?thesis
    by (auto simp: epoch_inv_def data_rows_def)
next
  case False
  then show ?thesis using assms(1) by (simp add: not_rotates)
qed


lemma check_rollover_config [simp]:
  "devices_file (check_rollover env st) = devices_file st"
  "upload_path (check_rollover env st) = upload_path st"
  "blacklist (check_rollover env st) = blacklist st"
  by (auto simp: check_rollover_def write_csv_header_def split: option.splits)

lemma scan_step_upload_path [simp]: "upload_path (scan_step fx t le st) = upload_path st"
  by (simp add: scan_step_def Let_def split: option.splits prod.splits)

lemma scan_loop_upload_path [simp]: "upload_path (scan_loop fx t les st) = upload_path st"
  by (induction les arbitrary: st) simp_all

lemma scan_tick_config [simp]:
  "devices_file (scan_tick lib tk st) = devices_file st"
  "upload_path (scan_tick lib tk st) = upload_path st"
  "blacklist (scan_tick lib tk st) = blacklist st"
  by (auto simp: scan_tick_def scan_def split: sum.splits)

lemma run_scans_config [simp]:
  "devices_file (run_scans lib tks st) = devices_file st"
  "upload_path (run_scans lib tks st) = upload_path st"
  "blacklist (run_scans lib tks st) = blacklist st"
  by (induction tks arbitrary: st) simp_all

lemma epoch_inv_tick:
  assumes "epoch_inv st"
    and "path_join (upload_path st) (rolled_name (devices_file st) (ts (renv tk))) \<noteq> devices_file st"
  shows "epoch_inv (scan_tick lib tk st)"
  using assms
  by (auto simp: scan_tick_def scan_def epoch_inv_rollover epoch_inv_loop split: sum.splits)

lemma epoch_inv_run:
  assumes "epoch_inv st"
    and "list_all (\<lambda>tk. path_join (upload_path st) (rolled_name (devices_file st) (ts (renv tk)))
                         \<noteq> devices_file st) tks"
  shows "epoch_inv (run_scans lib tks st)"
  using assms
  by (induction tks arbitrary: st) (simp_all add: epoch_inv_tick)

lemma epoch_inv_distinct:
  "epoch_inv st \<Longrightarrow> distinct (map (\<lambda>r. upper (row_addr r)) (data_rows st))"
proof -
  assume "epoch_inv st"
  then have d: "distinct (map row_addr (data_rows st))"
    and u: "\<forall>r \<in> set (data_rows st). upper (row_addr r) = row_addr r"
    by (auto simp: epoch_inv_def list_all_iff)
  from u have "map (\<lambda>r. upper (row_addr r)) (data_rows st) = map row_addr (data_rows st)"
    by (intro map_cong) simp_all
  with d show ?thesis by (simp only:)
qed

lemma known_step:
  assumes "data st mac \<noteq> None \<or> List.member (blacklist st) mac"
  shows "mac_rows mac (scan_step fx t le st) = mac_rows mac st \<and>
         data (scan_step fx t le st) mac = data st mac"
proof -
  from active_records_step [of fx t le st] show ?thesis
  proof
    assume same: "active_records (scan_step fx t le st) = active_records st"
    have "data (scan_step fx t le st) mac = data st mac"
      using assms by (cases rule: scan_step_cases [of fx t le st]) auto
    with same show ?thesis by (simp add: mac_rows_def data_rows_def)
  next
    assume "\<exists>mac name. parse_device (fst le) = Some (mac, name) \<and> \<not> List.member (blacklist st) mac \<and>
      data st mac = None \<and> data (scan_step fx t le st) = (data st)(mac \<mapsto> t) \<and>
      active_records (scan_step fx t le st) = active_records st @ [device_row fx mac name t (snd le)]"
    then obtain m name where nb: "\<not> List.member (blacklist st) m"
      and new: "data st m = None" and d: "data (scan_step fx t le st) = (data st)(m \<mapsto> t)"
      and r: "active_records (scan_step fx t le st) = active_records st @ [device_row fx m name t (snd le)]"
      by blast
    from assms nb new have "m \<noteq> mac" by auto
    then show ?thesis by (simp add: mac_rows_def data_rows_def r d device_row_not_meta)
  qed
qed

lemma known_loop:
  assumes "data st mac \<noteq> None \<or> List.member (blacklist st) mac"
  shows "mac_rows mac (scan_loop fx t les st) = mac_rows mac st \<and>
         data (scan_loop fx t les st) mac = data st mac"
  using assms
proof (induction les arbitrary: st)
  case Nil
  then show ?case by simp
next
  case (Cons le les)
  from known_step [OF Cons.prems, of fx t le]
  have s: "mac_rows mac (scan_step fx t le st) = mac_rows mac st"
    "data (scan_step fx t le st) mac = data st mac" by simp_all
  have "data (scan_step fx t le st) mac \<noteq> None \<or> List.member (blacklist (scan_step fx t le st)) mac"
    using Cons.prems s by simp
  from Cons.IH [OF this] s show ?case by simp
qed


subsection \<open>The uploader\<close>


lemma fs_move_plain:
  assumes "map_of fsys src = Some n" and "writable fsys dst"
  shows "fs_move src dst fsys = Some (AList.update dst n (AList.delete src fsys))"
  using assms by (auto simp: fs_move_def writable_def split: option.splits)












subsection \<open>The rotation\<close>

lemma replace_suffix:
  "CHR ''.'' \<notin> set stem \<Longrightarrow> py_replace ''.csv'' new (stem @ ''.csv'') = stem @ new"
  unfolding py_replace_def
  by (induction stem) simp_all

lemma rolled_name_suffix:
  assumes "basename p = stem @ ''.csv''" and "CHR ''.'' \<notin> set stem"
  shows "rolled_name p stamp = stem @ ''_'' @ stamp @ ''.csv''"
  using replace_suffix [OF assms(2)] assms(1) by (simp add: rolled_name_def)

lemma check_rollover_small:
  assumes "map_of (fs st) (devices_file st) = None \<or>
           (\<exists>n. map_of (fs st) (devices_file st) = Some n \<and> int (nbytes (body n)) < file_size st)"
  shows "check_rollover env st = st"
  using assms by (auto simp: check_rollover_def)

lemma check_rollover_blocked:
  assumes "(\<not> upload_dir_exists env \<and> \<not> makedirs_ok env) \<or> \<not> move_ok env"
  shows "check_rollover env st = st"
  using assms by (auto simp: check_rollover_def split: option.splits)

lemma check_rollover_rotated:
  assumes dir: "upload_dir_exists env \<or> makedirs_ok env"
    and n: "map_of (fs st) (devices_file st) = Some n"
    and big: "file_size st \<le> int (nbytes (body n))"
    and mv: "move_ok env"
    and ne: "path_join (upload_path st) (rolled_name (devices_file st) (ts env)) \<noteq> devices_file st"
    and w: "writable (fs st) (path_join (upload_path st) (rolled_name (devices_file st) (ts env)))"
  shows "map_of (fs (check_rollover env st))
           (path_join (upload_path st) (rolled_name (devices_file st) (ts env))) = Some n"
    and "map_of (fs (check_rollover env st)) (devices_file st) =
           (if header_open_ok env
            then Some \<lparr>regular = True, mtime = rtime env, body = header_file\<rparr> else None)"
    and "data (check_rollover env st) = Map.empty"
    and "q \<noteq> path_join (upload_path st) (rolled_name (devices_file st) (ts env)) \<Longrightarrow>
         q \<noteq> devices_file st \<Longrightarrow> map_of (fs (check_rollover env st)) q = map_of (fs st) q"
proof -
  let ?dst = "path_join (upload_path st) (rolled_name (devices_file st) (ts env))"
  let ?fs = "AList.update ?dst n (AList.delete (devices_file st) (fs st))"
  have m: "fs_move (devices_file st) ?dst (fs st) = Some ?fs"
    by (rule fs_move_plain [OF n w])
  have gone: "map_of ?fs (devices_file st) = None"
    using ne by (simp add: update_conv' delete_conv')
  have eq: "check_rollover env st =
      (write_csv_header (header_open_ok env) (rtime env) (st\<lparr>fs := ?fs\<rparr>))\<lparr>data := Map.empty\<rparr>"
    using dir n big mv m by (auto simp: check_rollover_def)
  show "map_of (fs (check_rollover env st)) ?dst = Some n"
    using ne by (simp add: eq write_csv_header_def update_conv')
  show "map_of (fs (check_rollover env st)) (devices_file st) =
           (if header_open_ok env
            then Some \<lparr>regular = True, mtime = rtime env, body = header_file\<rparr> else None)"
    using gone by (simp add: eq write_csv_header_def update_conv' writable_def)
  show "data (check_rollover env st) = Map.empty" by (simp add: eq)
  show "map_of (fs (check_rollover env st)) q = map_of (fs st) q"
    if "q \<noteq> ?dst" "q \<noteq> devices_file st"
    using that by (simp add: eq write_csv_header_def update_conv' delete_conv')
qed

subsection \<open>The location service\<close>

lemma split_all_nonempty [simp]: "split_all d s \<noteq> []"
  by (induction s) (auto split: list.splits)

lemma split_all_no_sep: "split_at d s = None \<Longrightarrow> split_all d s = [s]"
  by (induction s) (auto split: if_splits option.splits list.splits)

lemma split_all_sep: "split_at d s = Some (a, b) \<Longrightarrow> split_all d s = a # split_all d b"
  by (induction s arbitrary: a) (auto split: if_splits option.splits list.splits)

lemma split_all_append:
  "split_all d (a @ b) = butlast (split_all d a) @ split_all d (last (split_all d a) @ b)"
proof (induction a)
  case Nil
  show ?case by simp
next
  case (Cons c cs)
  obtain w ws where x: "split_all d cs = w # ws" by (cases "split_all d cs") simp_all
  show ?case
  proof (cases "c = d")
    case True
    then show ?thesis using Cons by simp
  next
    case False
    show ?thesis
    proof (cases ws)
      case Nil
      with x Cons False show ?thesis by (simp split: list.splits)
    next
      case (Cons v vs)
      with x Cons.IH False show ?thesis by (simp split: list.splits)
    qed
  qed
qed

lemma complete_lines_append:
  "complete_lines (a @ b) =
     complete_lines a @ complete_lines (last (split_all (CHR 0x0A) a) @ b)"
  unfolding complete_lines_def
  by (subst split_all_append) (simp add: butlast_append)

lemma scan_buf_no_tpv:
  "list_all (no_tpv lib) (complete_lines buf) \<Longrightarrow>
   scan_buf lib buf = (None, last (split_all (CHR 0x0A) buf))"
proof (induction lib buf rule: scan_buf.induct)
  case (1 lib buf)
  show ?case
  proof (cases "split_at (CHR 0x0A) buf")
    case None
    then show ?thesis by (subst scan_buf.simps) (simp add: split_all_no_sep)
  next
    case (Some p)
    obtain line rest where p: "p = (line, rest)" by (cases p)
    from Some p have s: "split_all (CHR 0x0A) buf = line # split_all (CHR 0x0A) rest"
      by (simp add: split_all_sep)
    with 1(3) have l: "no_tpv lib line" and r: "list_all (no_tpv lib) (complete_lines rest)"
      by (simp_all add: complete_lines_def)
    show ?thesis
    proof (cases "json_loads lib line")
      case None
      from 1(1) [OF Some p [symmetric] None r] Some p None s show ?thesis
        by (subst scan_buf.simps) simp
    next
      case (Some obj)
      with l have t: "tpv_of obj = None" by (simp add: no_tpv_def)
      from 1(2) [OF \<open>split_at (CHR 0x0A) buf = Some p\<close> p [symmetric] Some t r]
        \<open>split_at (CHR 0x0A) buf = Some p\<close> p Some t s show ?thesis
        by (subst scan_buf.simps) simp
    qed
  qed
qed

lemma read_loop_no_tpv:
  "list_all (no_tpv lib) (complete_lines (buf @ received es)) \<Longrightarrow> read_loop lib buf es = None"
proof (induction es arbitrary: buf)
  case Nil
  show ?case by simp
next
  case (Cons e es)
  show ?case
  proof (cases e)
    case RecvError
    then show ?thesis by simp
  next
    case (Chunk c)
    show ?thesis
    proof (cases "c = []")
      case True
      with Chunk show ?thesis by simp
    next
      case False
      from Cons.prems Chunk False
      have h: "list_all (no_tpv lib) (complete_lines (buf @ c @ received es))" by simp
      have e: "complete_lines (buf @ c @ received es) =
                 complete_lines (buf @ c) @
                 complete_lines (last (split_all (CHR 0x0A) (buf @ c)) @ received es)"
        using complete_lines_append [of "buf @ c" "received es"] by simp
      from h have a: "list_all (no_tpv lib) (complete_lines (buf @ c))"
        and b: "list_all (no_tpv lib)
                  (complete_lines (last (split_all (CHR 0x0A) (buf @ c)) @ received es))"
        unfolding e by simp_all
      from scan_buf_no_tpv [OF a] Cons.IH [OF b] Chunk False show ?thesis by simp
    qed
  qed
qed

lemma no_fix_zero:
  "list_all (no_tpv lib) (complete_lines (received es)) \<Longrightarrow>
   get_gps_coords lib (Connected es) = Inr zero_fix"
  using read_loop_no_tpv [of lib "[]" es] by (simp add: get_gps_coords_def gps_data_of_def)

lemma show_nat_0: "show_nat 0 = ''0''"
  by (simp add: show_nat.simps digit_char_def)

lemma round_half_even_0: "round_half_even 0 = 0"
  by (simp add: round_half_even_def)

lemma fmt_fixed_0: "fmt_fixed (Suc k) 0 = ''0.'' @ replicate (Suc k) (CHR ''0'')"
proof -
  have "replicate k (CHR ''0'') @ ''0'' = replicate (Suc k) (CHR ''0'')"
    by (simp only: replicate_append_same) simp
  then show ?thesis
    by (simp add: fmt_fixed_def round_half_even_0 show_nat_0 zfill_def)
qed

lemma device_row_zero:
  "device_row zero_fix mac name t env =
     [mac, name, ''Misc ['' @ devtype_str (dtype env) @ '']'', t, ''0'', ''0'', show_int (rssi env),
      ''0.000000000'', ''0.000000000'', ''0.0'', ''0.000000'', [], mfgr env,
      devtype_str (dtype env)]"
proof -
  have n: "(9::nat) = Suc 8" "(6::nat) = Suc 5" "(1::nat) = Suc 0" by simp_all
  have r: "replicate (Suc 8) (CHR ''0'') = ''000000000''" "replicate (Suc 5) (CHR ''0'') = ''000000''"
    "replicate (Suc 0) (CHR ''0'') = ''0''"
    by (simp_all add: numeral_nat)
  have f: "fmt_fixed 9 0 = ''0.000000000''" "fmt_fixed 1 0 = ''0.0''" "fmt_fixed 6 0 = ''0.000000''"
    unfolding n fmt_fixed_0 r by simp_all
  have f1: "fmt_fixed (Suc 0) 0 = ''0.0''" unfolding fmt_fixed_0 by simp
  have i: "show_int 0 = ''0''" by (simp add: show_int_def show_nat_0)
  show ?thesis by (simp add: device_row_def zero_fix_def f f1 i)
qed

lemma scan_step_new_row:
  assumes "parse_device (fst le) = Some (mac, name)" and "\<not> List.member (blacklist st) mac"
    and "data st mac = None" and "append_ok (snd le)" and "writable (fs st) (devices_file st)"
  shows "active_records (scan_step fx t le st) =
           active_records st @ [device_row fx mac name t (snd le)]"
    and "data (scan_step fx t le st) mac = Some t"
proof -
  from assms(4,5) obtain fs' where a: "append_row (append_ok (snd le)) (wtime (snd le))
      (device_row fx mac name t (snd le)) (devices_file st) (fs st) = Some fs'"
    by (auto simp: append_row_def writable_def split: option.splits)
  have s: "scan_step fx t le st = st\<lparr>data := (data st)(mac \<mapsto> t), fs := fs'\<rparr>"
    using assms(1-3) a by (simp add: scan_step_def)
  from records_append_row [OF a] show "active_records (scan_step fx t le st) =
           active_records st @ [device_row fx mac name t (snd le)]"
    by (auto simp: s active_records_def split: option.splits)
  show "data (scan_step fx t le st) mac = Some t" by (simp add: s)
qed

lemma scan_with_fix:
  "get_gps_coords lib (session tk) = Inr fx \<Longrightarrow>
   scan lib tk st = Inr (check_rollover (renv tk) (scan_loop fx (scan_time tk) (output_lines tk) st))"
  by (simp add: scan_def)

subsection \<open>One epoch\<close>

lemma scan_step_known:
  "parse_device (fst le) = Some (mac, name) \<Longrightarrow> data st mac \<noteq> None \<Longrightarrow>
   scan_step fx t le st = st"
  by (auto simp: scan_step_def)

lemma scan_step_append_failed:
  assumes "parse_device (fst le) = Some (mac, name)" and "\<not> List.member (blacklist st) mac"
    and "data st mac = None" and "\<not> append_ok (snd le)"
  shows "scan_step fx t le st = st\<lparr>data := (data st)(mac \<mapsto> t)\<rparr>"
  using assms by (simp add: scan_step_def append_row_def)

lemma scan_tick_same_epoch:
  assumes "\<not> tick_rotates lib tk st"
  shows "scan_tick lib tk st = st \<or>
         (\<exists>fx. scan_tick lib tk st = scan_loop fx (scan_time tk) (output_lines tk) st)"
proof (cases "get_gps_coords lib (session tk)")
  case (Inl e)
  then show ?thesis by (simp add: scan_tick_def scan_def)
next
  case (Inr fx)
  with assms have "\<not> rotates (renv tk) (scan_loop fx (scan_time tk) (output_lines tk) st)"
    by (simp add: tick_rotates_def)
  then have "scan_tick lib tk st = scan_loop fx (scan_time tk) (output_lines tk) st"
    using Inr by (auto simp: scan_tick_def scan_def not_rotates)
  then show ?thesis by blast
qed

lemma epoch_inv_same_epoch:
  assumes "epoch_inv st" and "same_epoch lib tks st"
  shows "epoch_inv (run_scans lib tks st)"
  using assms
proof (induction tks arbitrary: st)
  case Nil
  then show ?case by simp
next
  case (Cons tk tks)
  from Cons.prems(2) have nr: "\<not> tick_rotates lib tk st"
    and rest: "same_epoch lib tks (scan_tick lib tk st)" by simp_all
  from scan_tick_same_epoch [OF nr] Cons.prems(1) have "epoch_inv (scan_tick lib tk st)"
    by (auto simp: epoch_inv_loop)
  from Cons.IH [OF this rest] show ?case by simp
qed

lemma epoch_inv_ledger:
  "epoch_inv st \<Longrightarrow> list_all (\<lambda>r. data st (row_addr r) \<noteq> None) (data_rows st)"
  by (simp add: epoch_inv_def list_all_iff)

lemma row_produced:
  assumes "active_records (scan_step fx t le st) \<noteq> active_records st"
  shows "\<exists>mac name. parse_device (fst le) = Some (mac, name) \<and> data st mac = None \<and>
           data (scan_step fx t le st) mac = Some t \<and>
           active_records (scan_step fx t le st) =
             active_records st @ [device_row fx mac name t (snd le)]"
  using active_records_step [of fx t le st] assms by auto

subsection \<open>The bootstrap\<close>

lemma load_rows_step:
  "load_rows clock i (r # rs) d =
     load_rows clock (Suc i) rs
       (if tracked r \<and> d (row_key r) = None
        then d(row_key r \<mapsto> (if 3 < length r then r ! 3 else clock i)) else d)"
  by (simp add: tracked_def row_key_def Let_def)

lemma load_rows_keep: "d k = Some v \<Longrightarrow> load_rows clock i rows d k = Some v"
proof (induction rows arbitrary: i d)
  case Nil
  then show ?case by simp
next
  case (Cons r rs)
  show ?case unfolding load_rows_step
    by (rule Cons.IH) (use Cons.prems in auto)
qed

lemma load_rows_dom:
  "dom (load_rows clock i rows d) = dom d \<union> row_key ` set (filter tracked rows)"
proof (induction rows arbitrary: i d)
  case Nil
  then show ?case by simp
next
  case (Cons r rs)
  show ?case unfolding load_rows_step Cons.IH by auto
qed

lemma load_rows_value:
  assumes "distinct (map row_key (filter tracked rows))"
    and "\<forall>r \<in> set (filter tracked rows). d (row_key r) = None"
    and "j < length rows" and "tracked (rows ! j)"
  shows "load_rows clock i rows d (row_key (rows ! j)) =
           Some (if 3 < length (rows ! j) then rows ! j ! 3 else clock (i + j))"
  using assms
proof (induction rows arbitrary: i d j)
  case Nil
  then show ?case by simp
next
  case (Cons r rs)
  let ?d = "if tracked r \<and> d (row_key r) = None
        then d(row_key r \<mapsto> (if 3 < length r then r ! 3 else clock i)) else d"
  show ?case
  proof (cases j)
    case 0
    with Cons.prems have t: "tracked r" and n: "d (row_key r) = None" by simp_all
    have "?d (row_key r) = Some (if 3 < length r then r ! 3 else clock i)" using t n by simp
    then have "load_rows clock (Suc i) rs ?d (row_key r) =
                 Some (if 3 < length r then r ! 3 else clock i)"
      by (rule load_rows_keep)
    then show ?thesis using 0 unfolding load_rows_step by simp
  next
    case (Suc k)
    from Cons.prems(1) have d1: "distinct (map row_key (filter tracked rs))"
      by (simp split: if_splits)
    have d2: "\<forall>r' \<in> set (filter tracked rs). ?d (row_key r') = None"
    proof
      fix r' assume r': "r' \<in> set (filter tracked rs)"
      with Cons.prems(2) have n: "d (row_key r') = None" by simp
      show "?d (row_key r') = None"
      proof (cases "tracked r")
        case True
        with Cons.prems(1) r' have "row_key r \<noteq> row_key r'" by auto
        with n show ?thesis by simp
      next
        case False
        with n show ?thesis by simp
      qed
    qed
    from Cons.prems(3,4) Suc have k: "k < length rs" "tracked (rs ! k)" by simp_all
    from Cons.IH [OF d1 d2 k, of "Suc i"] Suc show ?thesis
      unfolding load_rows_step by simp
  qed
qed

lemma load_existing_devices_rows:
  assumes "read_ok env" and "map_of (fs st) (devices_file st) = Some n" and "regular n"
    and "startswith (first_line (body n)) ''WigleWifi''"
    and "records (body n) = pre # header # rows"
  shows "load_existing_devices env st = st\<lparr>data := load_rows (utcnow env) 0 rows (data st)\<rparr>"
  using assms by (simp add: load_existing_devices_def header_def)



subsection \<open>The blacklist\<close>

lemma rollover_rows:
  "(data_rows (check_rollover env st) = data_rows st \<or> data_rows (check_rollover env st) = []) \<and>
   (data (check_rollover env st) = data st \<or> data (check_rollover env st) = Map.empty)"
proof (cases "rotates env st")
  case False
  then show ?thesis by (simp add: not_rotates)
next
  case True
  let ?dst = "path_join (upload_path st) (rolled_name (devices_file st) (ts env))"
  from True obtain n fs' where n: "map_of (fs st) (devices_file st) = Some n"
    and big: "file_size st \<le> int (nbytes (body n))" and mk: "upload_dir_exists env \<or> makedirs_ok env"
    and mv: "move_ok env" "fs_move (devices_file st) ?dst (fs st) = Some fs'"
    by (auto simp: rotates_def split: option.splits)
  have eq: "check_rollover env st =
      (write_csv_header (header_open_ok env) (rtime env) (st\<lparr>fs := fs'\<rparr>))\<lparr>data := Map.empty\<rparr>"
    using n big mk mv by (auto simp: check_rollover_def)
  have m: "map_of fs' (devices_file st) = None \<or> map_of fs' (devices_file st) = Some n"
    using mv(2) n
    by (auto simp: fs_move_def update_conv' delete_conv' split: option.splits if_splits)
  have a: "active_records (check_rollover env st) = active_records st \<or>
           active_records (check_rollover env st) = [] \<or>
           active_records (check_rollover env st) = [preamble_rec, header]"
    using m n
    by (auto simp: eq active_records_def write_csv_header_def update_conv' header_file_def)
  then have "data_rows (check_rollover env st) = data_rows st \<or> data_rows (check_rollover env st) = []"
    by (auto simp: data_rows_def)
  then show ?thesis by (simp add: eq)
qed

lemma blacklisted_tick:
  assumes "List.member (blacklist st) mac"
  shows "(mac_rows mac (scan_tick lib tk st) = mac_rows mac st \<or> mac_rows mac (scan_tick lib tk st) = []) \<and>
         (data (scan_tick lib tk st) mac = data st mac \<or> data (scan_tick lib tk st) mac = None)"
proof (cases "get_gps_coords lib (session tk)")
  case (Inl e)
  then show ?thesis by (simp add: scan_tick_def scan_def)
next
  case (Inr fx)
  let ?s = "scan_loop fx (scan_time tk) (output_lines tk) st"
  have e: "scan_tick lib tk st = check_rollover (renv tk) ?s"
    using Inr by (simp add: scan_tick_def scan_def)
  from known_loop [of st mac fx "scan_time tk" "output_lines tk"] assms
  have k: "mac_rows mac ?s = mac_rows mac st" "data ?s mac = data st mac" by simp_all
  from rollover_rows [of "renv tk" ?s]
  have "(mac_rows mac (check_rollover (renv tk) ?s) = mac_rows mac ?s \<or>
         mac_rows mac (check_rollover (renv tk) ?s) = []) \<and>
        (data (check_rollover (renv tk) ?s) mac = data ?s mac \<or>
         data (check_rollover (renv tk) ?s) mac = None)"
    by (auto simp: mac_rows_def)
  then show ?thesis unfolding e k .
qed

lemma blacklisted_run:
  assumes "List.member (blacklist st) mac"
  shows "(mac_rows mac (run_scans lib tks st) = mac_rows mac st \<or> mac_rows mac (run_scans lib tks st) = []) \<and>
         (data (run_scans lib tks st) mac = data st mac \<or> data (run_scans lib tks st) mac = None)"
  using assms
proof (induction tks arbitrary: st)
  case Nil
  then show ?case by simp
next
  case (Cons tk tks)
  have b: "List.member (blacklist (scan_tick lib tk st)) mac" using Cons.prems by simp
  from Cons.IH [OF b] blacklisted_tick [OF Cons.prems, of lib tk]
  show ?case by auto
qed

lemma blacklisted_step:
  "List.member (blacklist st) mac \<Longrightarrow> parse_device (fst le) = Some (mac, name) \<Longrightarrow>
   scan_step fx t le st = st"
  by (simp add: scan_step_def)

lemma load_existing_devices_blacklist [simp]:
  "blacklist (load_existing_devices env st) = blacklist st"
  by (simp add: load_existing_devices_def split: option.splits list.splits)

lemma write_csv_header_blacklist [simp]:
  "blacklist (write_csv_header ok now st) = blacklist st"
  by (simp add: write_csv_header_def)

lemma on_loaded_blacklist:
  "on_loaded env st0 = Inr st \<Longrightarrow> blacklist st = map upper (blacklist st0)"
  by (auto simp: on_loaded_def Let_def split: if_splits)

subsection \<open>The lock\<close>








subsection \<open>Evaluations\<close>

lemma parse_ex_line: "parse_device ex_line = Some (ex_mac, ''Phone'')"
  unfolding ex_line_def ex_mac_def by code_simp

lemma ex_mac_not_blacklisted: "\<not> List.member (blacklist init_plugin) ex_mac"
  by (simp add: init_plugin_def ex_mac_def)

lemma gps_connect_error: "get_gps_coords lib ConnectError = Inr zero_fix"
  by (simp add: get_gps_coords_def gps_data_of_def)









lemma ex_active_file: "map_of (fs ex_active) (devices_file ex_active) = Some (ex_node True 90)"
  by (simp add: ex_active_def init_plugin_def)

lemma header_file_size: "nbytes header_file = 290"
  unfolding header_file_def pre_header_def header_def by code_simp

lemma ex_active_config:
  "devices_file ex_active = ''/root/handshakes/bluetooth_devices.csv''"
  "upload_path ex_active = ''/root/handshakes/toupload/''"
  "file_size ex_active = 100"
  "fs ex_active = [(''/root/handshakes/bluetooth_devices.csv'', ex_node True 90)]"
  "data ex_active ex_mac = Some ''2024-01-01 11:00:00''"
  by (simp_all add: ex_active_def init_plugin_def)

lemma ex_active_big: "file_size ex_active \<le> int (nbytes (body (ex_node True 90)))"
  by (simp add: ex_active_config ex_node_def header_file_size)

lemma ex_active_basename: "basename (devices_file ex_active) = ''bluetooth_devices'' @ ''.csv''"
  unfolding ex_active_config by code_simp

lemma ex_active_dest:
  "path_join (upload_path ex_active) (''bluetooth_devices'' @ ''_'' @ ts ex_renv @ ''.csv'') = ex_rolled"
proof -
  have "ts ex_renv = ''20240101_120000''" by (simp add: ex_renv_def)
  then show ?thesis unfolding ex_active_config ex_rolled_def by code_simp
qed

lemma ex_rolled_free: "ex_rolled \<noteq> devices_file ex_active" "writable (fs ex_active) ex_rolled"
  by (simp_all add: ex_active_config ex_rolled_def writable_def)

lemma ex_renv_flags: "upload_dir_exists ex_renv" "move_ok ex_renv" "header_open_ok ex_renv"
  "rtime ex_renv = 200" "ts ex_renv = ''20240101_120000''"
  by (simp_all add: ex_renv_def)

lemma ex_chunks_lines:
  "complete_lines (received ex_chunks) = [''{\"class\":\"SKY\"}'', ''{\"class\":oops'']"
  unfolding ex_chunks_def complete_lines_def by code_simp

lemma ex_chunks_no_tpv: "list_all (no_tpv ex_lib) (complete_lines (received ex_chunks))"
  unfolding ex_chunks_lines by (simp add: no_tpv_def ex_lib_def tpv_of_def)

lemma ex_dev_fields: "append_ok (ex_dev True)" "rssi (ex_dev b) = - 60" "dtype (ex_dev b) = BLE"
  "mfgr (ex_dev b) = []"
  by (simp_all add: ex_dev_def)

lemma show_int_m60: "show_int (- 60) = ''-60''"
  by code_simp

lemma init_plugin_fresh: "data init_plugin ex_mac = None" "writable (fs init_plugin) (devices_file init_plugin)"
  "active_records init_plugin = []"
  by (simp_all add: init_plugin_def writable_def active_records_def)

lemma ex_row_eq:
  "device_row zero_fix ex_mac ''Phone'' ''2024-01-01 12:00:00'' (ex_dev True) = ex_row"
  by (simp add: device_row_zero ex_dev_fields show_int_m60 ex_row_def ex_mac_def)

lemma ex_row_small: "length (csv_writerow ex_row) < 15000"
  unfolding ex_row_def by code_simp

lemma ex_first_step:
  "scan_step zero_fix ''2024-01-01 12:00:00'' (ex_line, ex_dev True) init_plugin = ex_logged"
proof -
  have a: "append_row True 100 ex_row (devices_file init_plugin) (fs init_plugin) =
     Some [(''/root/handshakes/bluetooth_devices.csv'',
                         \<lparr>regular = True, mtime = 100,
                          body = \<lparr>first_line = csv_writerow ex_row, records = [ex_row],
                                  nbytes = length (csv_writerow ex_row)\<rparr>\<rparr>)]"
    by (simp add: append_row_def init_plugin_def)
  have e: "append_ok (ex_dev True)" "wtime (ex_dev True) = 100" by (simp_all add: ex_dev_def)
  have b: "\<not> List.member (blacklist init_plugin) ex_mac" by (rule ex_mac_not_blacklisted)
  have d: "data init_plugin ex_mac = None" "data init_plugin = Map.empty"
    by (simp_all add: init_plugin_def)
  show ?thesis
    using b by (simp add: scan_step_def parse_ex_line d ex_row_eq e a ex_logged_def)
qed

lemma ex_logged_known: "data ex_logged ex_mac \<noteq> None"
  by (simp add: ex_logged_def)

lemma ex_logged_records: "active_records ex_logged = [ex_row]"
  by (simp add: active_records_def ex_logged_def init_plugin_def)

lemma ex_logged_not_rotates: "\<not> rotates ex_renv ex_logged"
  using ex_row_small by (simp add: rotates_def ex_logged_def init_plugin_def)

lemma ex_row_data: "ex_row \<noteq> preamble_rec" "ex_row \<noteq> header"
proof -
  have "length ex_row = 14" by (simp add: ex_row_def)
  then show "ex_row \<noteq> preamble_rec" using length_preamble_rec by auto
  show "ex_row \<noteq> header" by (simp add: ex_row_def header_def)
qed

lemma init_plugin_inv: "epoch_inv init_plugin"
  by (simp add: epoch_inv_def data_rows_def init_plugin_fresh)

lemma ex_twice_loop:
  "scan_loop zero_fix ''2024-01-01 12:00:00'' [(ex_line, ex_dev True), (ex_line, ex_dev True)]
     init_plugin = ex_logged"
proof -
  have k: "scan_step zero_fix ''2024-01-01 12:00:00'' (ex_line, ex_dev True) ex_logged = ex_logged"
    by (rule scan_step_known [of _ ex_mac "''Phone''"]) (simp_all add: parse_ex_line ex_logged_known)
  show ?thesis by (simp add: ex_first_step k)
qed

lemma ex_twice_tick:
  "\<not> tick_rotates ex_lib (ex_tick [(ex_line, ex_dev True), (ex_line, ex_dev True)]) init_plugin"
  "scan_tick ex_lib (ex_tick [(ex_line, ex_dev True), (ex_line, ex_dev True)]) init_plugin = ex_logged"
proof -
  let ?tk = "ex_tick [(ex_line, ex_dev True), (ex_line, ex_dev True)]"
  have tk: "session ?tk = ConnectError" "renv ?tk = ex_renv"
    "scan_time ?tk = ''2024-01-01 12:00:00''"
    "output_lines ?tk = [(ex_line, ex_dev True), (ex_line, ex_dev True)]"
    by (simp_all add: ex_tick_def)
  have l: "scan_loop zero_fix (scan_time ?tk) (output_lines ?tk) init_plugin = ex_logged"
    unfolding tk by (rule ex_twice_loop)
  show "\<not> tick_rotates ex_lib ?tk init_plugin"
    by (simp add: tick_rotates_def tk(1) gps_connect_error l tk(2) ex_logged_not_rotates)
  have "scan ex_lib ?tk init_plugin = Inr (check_rollover (renv ?tk)
          (scan_loop zero_fix (scan_time ?tk) (output_lines ?tk) init_plugin))"
    by (rule scan_with_fix) (simp only: tk(1) gps_connect_error)
  then show "scan_tick ex_lib ?tk init_plugin = ex_logged"
    unfolding l tk(2) scan_tick_def by (simp add: not_rotates [OF ex_logged_not_rotates])
qed

lemma ex_existing_file:
  "map_of (fs (ex_existing rows)) (devices_file (ex_existing rows)) =
     Some \<lparr>regular = True, mtime = 100,
           body = \<lparr>first_line = pre_header, records = preamble_rec # header # rows,
                   nbytes = 1000\<rparr>\<rparr>"
  "data (ex_existing rows) = Map.empty"
  by (simp_all add: ex_existing_def init_plugin_def)

lemma pre_header_wigle: "startswith pre_header ''WigleWifi''"
  unfolding pre_header_def by code_simp

lemma ex_existing_node:
  "regular \<lparr>regular = True, mtime = 100,
           body = \<lparr>first_line = pre_header, records = preamble_rec # header # rows,
                   nbytes = 1000\<rparr>\<rparr>"
  "startswith (first_line (body \<lparr>regular = True, mtime = 100,
           body = \<lparr>first_line = pre_header, records = preamble_rec # header # rows,
                   nbytes = 1000\<rparr>\<rparr>)) ''WigleWifi''"
  "records (body \<lparr>regular = True, mtime = 100,
           body = \<lparr>first_line = pre_header, records = preamble_rec # header # rows,
                   nbytes = 1000\<rparr>\<rparr>) = preamble_rec # header # rows"
  by (simp_all add: pre_header_wigle)

lemma ex_lenv_fields: "read_ok ex_lenv" "utcnow ex_lenv j = ''2024-02-02 00:00:00''"
  by (simp_all add: ex_lenv_def)

lemma ex_rows_tracked: "filter tracked ex_rows = [ex_row, ex_watch]"
  unfolding ex_rows_def ex_row_def ex_watch_def by code_simp

lemma ex_rows_keys: "row_key ex_row = ex_mac" "row_key ex_watch = ''AA:BB:CC:DD:EE:01''"
  unfolding ex_row_def ex_watch_def ex_mac_def by code_simp+

lemma ex_rows_nth: "ex_rows ! 0 = ex_row" "ex_rows ! 2 = ex_watch" "length ex_rows = 4"
  "tracked ex_row" "tracked ex_watch"
  "ex_row ! 3 = ''2024-01-01 12:00:00''" "ex_watch ! 3 = ''2024-01-01 12:30:00''"
  "length ex_row = 14" "length ex_watch = 4"
  unfolding ex_rows_def ex_row_def ex_watch_def by code_simp+

lemma short_key: "row_key [''aa:bb:cc:dd:ee:02''] = ''AA:BB:CC:DD:EE:02''"
  "tracked [''aa:bb:cc:dd:ee:02'']"
  by code_simp+



lemma upper_black: "upper ''aa:bb:cc:dd:ee:ff'' = ''AA:BB:CC:DD:EE:FF''"
  by code_simp

lemma parse_black_line: "parse_device ex_black_line = Some (''AA:BB:CC:DD:EE:FF'', ''Speaker'')"
  unfolding ex_black_line_def by code_simp

lemma ex_on_loaded: "on_loaded ex_oenv ex_config = Inr ex_started"
  by (simp add: on_loaded_def ex_oenv_def ex_config_def ex_started_def init_plugin_def
      write_csv_header_def writable_def upper_black)

lemma ex_started_clean:
  "mac_rows ''AA:BB:CC:DD:EE:FF'' ex_started = []" "data ex_started ''AA:BB:CC:DD:EE:FF'' = None"
  by (simp_all add: mac_rows_def data_rows_def active_records_def ex_started_def init_plugin_def
      header_file_def)

lemma ex_config_blacklist: "''aa:bb:cc:dd:ee:ff'' \<in> set (blacklist ex_config)"
  by (simp add: ex_config_def)

lemma black_key: "row_key ex_black = ''AA:BB:CC:DD:EE:FF''" "tracked ex_black"
  "ex_black ! 3 = ''2024-01-01 10:00:00''" "length ex_black = 4"
  unfolding ex_black_def by code_simp+

lemma ex_existing_blacklist: "List.member (blacklist (ex_existing rows)) ''AA:BB:CC:DD:EE:FF''"
  by (simp add: ex_existing_def init_plugin_def)

lemma init_blacklist_upper: "map upper (blacklist init_plugin) = blacklist init_plugin"
  unfolding init_plugin_def by code_simp

lemma ex_existing_loaded:
  "on_loaded ex_oenv (ex_existing rows) = Inr (load_existing_devices ex_lenv (ex_existing rows))"
proof -
  have b: "map upper (blacklist (ex_existing rows)) = blacklist (ex_existing rows)"
    using init_blacklist_upper by (simp add: ex_existing_def)
  show ?thesis
    by (simp add: on_loaded_def b ex_oenv_def Let_def ex_existing_file(1))
qed



section \<open>The claims\<close>












text \<open>
  Claim C2, as the code has it. \<open>check_rollover\<close> changes nothing when the active file is
  absent, when its size is below \<open>file_size\<close>, when the upload directory is missing and
  cannot be created, or when the move fails. When the directory is there, the file has
  at least \<open>file_size\<close> bytes, its name is \<open>stem.csv\<close> with no other dot, and the move to
  \<open>stem_<timestamp>.csv\<close> under the upload directory succeeds, then the file is at that
  path with its contents, the ledger is empty, the active path carries the preamble and
  the header alone if the new file could be opened and nothing otherwise, and no other
  path has changed.
\<close>

theorem rollover_outcomes:
  "((map_of (fs st) (devices_file st) = None \<or>
     (\<exists>n. map_of (fs st) (devices_file st) = Some n \<and> int (nbytes (body n)) < file_size st) \<or>
     (\<not> upload_dir_exists env \<and> \<not> makedirs_ok env) \<or> \<not> move_ok env)
      \<longrightarrow> check_rollover env st = st) \<and>
   ((upload_dir_exists env \<or> makedirs_ok env) \<and> move_ok env \<and>
    map_of (fs st) (devices_file st) = Some n \<and> file_size st \<le> int (nbytes (body n)) \<and>
    basename (devices_file st) = stem @ ''.csv'' \<and> CHR ''.'' \<notin> set stem \<and>
    path_join (upload_path st) (stem @ ''_'' @ ts env @ ''.csv'') \<noteq> devices_file st \<and>
    writable (fs st) (path_join (upload_path st) (stem @ ''_'' @ ts env @ ''.csv''))
      \<longrightarrow> map_of (fs (check_rollover env st))
             (path_join (upload_path st) (stem @ ''_'' @ ts env @ ''.csv'')) = Some n \<and>
          map_of (fs (check_rollover env st)) (devices_file st) =
            (if header_open_ok env
             then Some \<lparr>regular = True, mtime = rtime env, body = header_file\<rparr> else None) \<and>
          data (check_rollover env st) = Map.empty \<and>
          (\<forall>q. q \<noteq> path_join (upload_path st) (stem @ ''_'' @ ts env @ ''.csv'') \<and>
                q \<noteq> devices_file st \<longrightarrow>
                map_of (fs (check_rollover env st)) q = map_of (fs st) q))"
proof (intro conjI impI allI)
  assume "map_of (fs st) (devices_file st) = None \<or>
     (\<exists>n. map_of (fs st) (devices_file st) = Some n \<and> int (nbytes (body n)) < file_size st) \<or>
     (\<not> upload_dir_exists env \<and> \<not> makedirs_ok env) \<or> \<not> move_ok env"
  then show "check_rollover env st = st"
    using check_rollover_small [of st env] check_rollover_blocked [of env st] by blast
next
  assume a: "(upload_dir_exists env \<or> makedirs_ok env) \<and> move_ok env \<and>
    map_of (fs st) (devices_file st) = Some n \<and> file_size st \<le> int (nbytes (body n)) \<and>
    basename (devices_file st) = stem @ ''.csv'' \<and> CHR ''.'' \<notin> set stem \<and>
    path_join (upload_path st) (stem @ ''_'' @ ts env @ ''.csv'') \<noteq> devices_file st \<and>
    writable (fs st) (path_join (upload_path st) (stem @ ''_'' @ ts env @ ''.csv''))"
  then have nm: "rolled_name (devices_file st) (ts env) = stem @ ''_'' @ ts env @ ''.csv''"
    by (simp add: rolled_name_suffix)
  from a have h: "upload_dir_exists env \<or> makedirs_ok env"
    "map_of (fs st) (devices_file st) = Some n" "file_size st \<le> int (nbytes (body n))"
    "move_ok env"
    "path_join (upload_path st) (rolled_name (devices_file st) (ts env)) \<noteq> devices_file st"
    "writable (fs st) (path_join (upload_path st) (rolled_name (devices_file st) (ts env)))"
    by (simp_all add: nm)
  note r = check_rollover_rotated [OF h]
  show "map_of (fs (check_rollover env st))
             (path_join (upload_path st) (stem @ ''_'' @ ts env @ ''.csv'')) = Some n"
    using r(1) by (simp add: nm)
  show "map_of (fs (check_rollover env st)) (devices_file st) =
            (if header_open_ok env
             then Some \<lparr>regular = True, mtime = rtime env, body = header_file\<rparr> else None)"
    by (rule r(2))
  show "data (check_rollover env st) = Map.empty" by (rule r(3))
  fix q
  assume "q \<noteq> path_join (upload_path st) (stem @ ''_'' @ ts env @ ''.csv'') \<and> q \<noteq> devices_file st"
  then show "map_of (fs (check_rollover env st)) q = map_of (fs st) q"
    using r(4) [of q] by (simp add: nm)
qed

theorem rollover_outcomes_witness:
  "map_of (fs init_plugin) (devices_file init_plugin) = None \<and>
   check_rollover ex_renv init_plugin = init_plugin \<and>
   map_of (fs ex_active) (devices_file ex_active) = Some (ex_node True 90) \<and>
   file_size ex_active \<le> int (nbytes (body (ex_node True 90))) \<and>
   data ex_active ex_mac = Some ''2024-01-01 11:00:00'' \<and>
   map_of (fs (check_rollover ex_renv ex_active)) ex_rolled = Some (ex_node True 90) \<and>
   map_of (fs (check_rollover ex_renv ex_active)) (devices_file ex_active) =
     Some \<lparr>regular = True, mtime = 200, body = header_file\<rparr> \<and>
   data (check_rollover ex_renv ex_active) = Map.empty"
proof -
  have nofile: "map_of (fs init_plugin) (devices_file init_plugin) = None"
    by (simp add: init_plugin_def)
  from rollover_outcomes [of init_plugin ex_renv] nofile
  have a: "check_rollover ex_renv init_plugin = init_plugin" by blast
  from rollover_outcomes [of ex_active ex_renv "ex_node True 90" "''bluetooth_devices''"]
    ex_active_file ex_active_big ex_active_basename ex_rolled_free ex_renv_flags(1,2)
  have r: "map_of (fs (check_rollover ex_renv ex_active)) ex_rolled = Some (ex_node True 90) \<and>
          map_of (fs (check_rollover ex_renv ex_active)) (devices_file ex_active) =
            (if header_open_ok ex_renv
             then Some \<lparr>regular = True, mtime = rtime ex_renv, body = header_file\<rparr> else None) \<and>
          data (check_rollover ex_renv ex_active) = Map.empty"
    unfolding ex_active_dest by simp
  from r have r1: "map_of (fs (check_rollover ex_renv ex_active)) ex_rolled = Some (ex_node True 90)" ..
  from r have r2: "map_of (fs (check_rollover ex_renv ex_active)) (devices_file ex_active) =
     Some \<lparr>regular = True, mtime = 200, body = header_file\<rparr>"
    by (simp add: ex_renv_flags)
  from r have r3: "data (check_rollover ex_renv ex_active) = Map.empty" by simp
  from nofile a ex_active_file ex_active_big ex_active_config(5) r1 r2 r3
  show ?thesis by (intro conjI)
qed

text \<open>
  Claim C2 as stated does not hold: an active file at or above the threshold is not
  rotated when the move fails; the file stays where it is and the ledger keeps its
  entries.
\<close>

theorem rollover_move_failure:
  "map_of (fs ex_active) (devices_file ex_active) = Some (ex_node True 90) \<and>
   file_size ex_active \<le> int (nbytes (body (ex_node True 90))) \<and>
   check_rollover (ex_renv\<lparr>move_ok := False\<rparr>) ex_active = ex_active \<and>
   map_of (fs (check_rollover (ex_renv\<lparr>move_ok := False\<rparr>) ex_active)) ex_rolled = None \<and>
   data (check_rollover (ex_renv\<lparr>move_ok := False\<rparr>) ex_active) ex_mac
     = Some ''2024-01-01 11:00:00''"
proof -
  have u: "check_rollover (ex_renv\<lparr>move_ok := False\<rparr>) ex_active = ex_active"
    by (rule check_rollover_blocked) simp
  have f: "map_of (fs ex_active) ex_rolled = None"
    by (simp add: ex_active_config ex_rolled_def)
  from ex_active_file ex_active_big u f ex_active_config(5) show ?thesis by simp
qed


text \<open>
  Claim C7: \<open>get_gps_coords\<close> returns the all-zero fix, and no exception, when the
  connection fails and when the reading ends (deadline, socket timeout or other
  exception, end of the stream) without a complete line that parses to an object of class
  TPV, lines that are not JSON included. The scan then goes on with the zero fix, and a
  new device whose row can be appended gets a row with \<open>0.000000000\<close> for latitude and
  longitude, \<open>0.0\<close> for the altitude and \<open>0.000000\<close> for the accuracy.
\<close>

theorem no_fix_row_still_written:
  "get_gps_coords lib ConnectError = Inr zero_fix \<and>
   (list_all (no_tpv lib) (complete_lines (received es)) \<longrightarrow>
      get_gps_coords lib (Connected es) = Inr zero_fix) \<and>
   (get_gps_coords lib (session tk) = Inr zero_fix \<longrightarrow>
      scan lib tk st =
        Inr (check_rollover (renv tk)
               (scan_loop zero_fix (scan_time tk) (output_lines tk) st))) \<and>
   (parse_device (fst le) = Some (mac, name) \<and> \<not> List.member (blacklist st) mac \<and>
    data st mac = None \<and> append_ok (snd le) \<and> writable (fs st) (devices_file st) \<longrightarrow>
      active_records (scan_step zero_fix t le st) =
        active_records st @
        [[mac, name, ''Misc ['' @ devtype_str (dtype (snd le)) @ '']'', t, ''0'', ''0'',
          show_int (rssi (snd le)), ''0.000000000'', ''0.000000000'', ''0.0'', ''0.000000'',
          [], mfgr (snd le), devtype_str (dtype (snd le))]])"
proof (intro conjI impI)
  show "get_gps_coords lib ConnectError = Inr zero_fix" by (rule gps_connect_error)
  show "get_gps_coords lib (Connected es) = Inr zero_fix"
    if "list_all (no_tpv lib) (complete_lines (received es))"
    using that by (rule no_fix_zero)
  show "scan lib tk st =
        Inr (check_rollover (renv tk) (scan_loop zero_fix (scan_time tk) (output_lines tk) st))"
    if "get_gps_coords lib (session tk) = Inr zero_fix"
    using that by (rule scan_with_fix)
  assume a: "parse_device (fst le) = Some (mac, name) \<and> \<not> List.member (blacklist st) mac \<and>
    data st mac = None \<and> append_ok (snd le) \<and> writable (fs st) (devices_file st)"
  then have h: "parse_device (fst le) = Some (mac, name)" "\<not> List.member (blacklist st) mac"
    "data st mac = None" "append_ok (snd le)" "writable (fs st) (devices_file st)" by simp_all
  from scan_step_new_row(1) [OF h, of zero_fix t]
  show "active_records (scan_step zero_fix t le st) =
        active_records st @
        [[mac, name, ''Misc ['' @ devtype_str (dtype (snd le)) @ '']'', t, ''0'', ''0'',
          show_int (rssi (snd le)), ''0.000000000'', ''0.000000000'', ''0.0'', ''0.000000'',
          [], mfgr (snd le), devtype_str (dtype (snd le))]]"
    by (simp only: device_row_zero)
qed

theorem no_fix_row_still_written_witness:
  "list_all (no_tpv ex_lib) (complete_lines (received ex_chunks)) \<and>
   get_gps_coords ex_lib (Connected ex_chunks) = Inr zero_fix \<and>
   scan ex_lib ((ex_tick [(ex_line, ex_dev True)])\<lparr>session := Connected ex_chunks\<rparr>) init_plugin =
     Inr (check_rollover ex_renv
            (scan_loop zero_fix ''2024-01-01 12:00:00'' [(ex_line, ex_dev True)] init_plugin)) \<and>
   active_records (scan_step zero_fix ''2024-01-01 12:00:00'' (ex_line, ex_dev True) init_plugin) =
     [[ex_mac, ''Phone'', ''Misc [BLE]'', ''2024-01-01 12:00:00'', ''0'', ''0'', ''-60'',
       ''0.000000000'', ''0.000000000'', ''0.0'', ''0.000000'', [], [], ''BLE'']]"
proof -
  let ?tk = "(ex_tick [(ex_line, ex_dev True)])\<lparr>session := Connected ex_chunks\<rparr>"
  let ?le = "(ex_line, ex_dev True)"
  note inst = no_fix_row_still_written [of ex_lib ex_chunks ?tk init_plugin ?le ex_mac "''Phone''"
      "''2024-01-01 12:00:00''"]
  from inst ex_chunks_no_tpv
  have g: "get_gps_coords ex_lib (Connected ex_chunks) = Inr zero_fix" by blast
  have tk: "session ?tk = Connected ex_chunks" "renv ?tk = ex_renv"
    "scan_time ?tk = ''2024-01-01 12:00:00''" "output_lines ?tk = [?le]"
    by (simp_all add: ex_tick_def)
  from inst g have "scan ex_lib ?tk init_plugin =
        Inr (check_rollover (renv ?tk)
               (scan_loop zero_fix (scan_time ?tk) (output_lines ?tk) init_plugin))"
    unfolding tk(1) by blast
  then have s: "scan ex_lib ?tk init_plugin =
     Inr (check_rollover ex_renv
            (scan_loop zero_fix ''2024-01-01 12:00:00'' [(ex_line, ex_dev True)] init_plugin))"
    unfolding tk .
  have h: "parse_device (fst ?le) = Some (ex_mac, ''Phone'') \<and>
      \<not> List.member (blacklist init_plugin) ex_mac \<and> data init_plugin ex_mac = None \<and>
      append_ok (snd ?le) \<and> writable (fs init_plugin) (devices_file init_plugin)"
    using parse_ex_line ex_mac_not_blacklisted init_plugin_fresh(1,2) ex_dev_fields(1)
    by (intro conjI) simp_all
  from inst h have "active_records (scan_step zero_fix ''2024-01-01 12:00:00'' ?le init_plugin) =
        active_records init_plugin @
        [[ex_mac, ''Phone'', ''Misc ['' @ devtype_str (dtype (snd ?le)) @ '']'',
          ''2024-01-01 12:00:00'', ''0'', ''0'',
          show_int (rssi (snd ?le)), ''0.000000000'', ''0.000000000'', ''0.0'', ''0.000000'',
          [], mfgr (snd ?le), devtype_str (dtype (snd ?le))]]"
    by blast
  then have r: "active_records (scan_step zero_fix ''2024-01-01 12:00:00'' ?le init_plugin) =
     [[ex_mac, ''Phone'', ''Misc [BLE]'', ''2024-01-01 12:00:00'', ''0'', ''0'', ''-60'',
       ''0.000000000'', ''0.000000000'', ''0.0'', ''0.000000'', [], [], ''BLE'']]"
    by (simp add: init_plugin_fresh ex_dev_fields show_int_m60)
  from ex_chunks_no_tpv g s r show ?thesis by (intro conjI)
qed


text \<open>
  Claim C1, as the code has it. Let every data row of the active file have its
  (uppercase) address in the ledger and no two rows share an address, as is the case for
  a file that holds the header alone. Then after any sequence of scan ticks none of which
  rotates the file, the data rows of the active file still have pairwise different
  normalized addresses, all of them in the ledger. In the loop of \<open>scan\<close>, a line whose
  address is in the ledger changes nothing, and whenever the active file gets a row, the
  address of the row was not in the ledger before and is in it afterwards.
\<close>

theorem one_row_per_address:
  assumes "epoch_inv st" and "same_epoch lib tks st"
  shows "distinct (map (\<lambda>r. upper (row_addr r)) (data_rows (run_scans lib tks st))) \<and>
         list_all (\<lambda>r. data (run_scans lib tks st) (row_addr r) \<noteq> None)
           (data_rows (run_scans lib tks st)) \<and>
         (parse_device (fst le) = Some (mac, name) \<and> data s mac \<noteq> None \<longrightarrow>
            scan_step fx t le s = s) \<and>
         (active_records (scan_step fx t le s) \<noteq> active_records s \<longrightarrow>
            (\<exists>mac name. parse_device (fst le) = Some (mac, name) \<and> data s mac = None \<and>
               data (scan_step fx t le s) mac = Some t \<and>
               active_records (scan_step fx t le s) =
                 active_records s @ [device_row fx mac name t (snd le)]))"
proof -
  have i: "epoch_inv (run_scans lib tks st)" by (rule epoch_inv_same_epoch [OF assms])
  show ?thesis
    using epoch_inv_distinct [OF i] epoch_inv_ledger [OF i] scan_step_known [of le mac name s fx t]
      row_produced [of fx t le s]
    by blast
qed

theorem one_row_per_address_witness:
  "epoch_inv init_plugin \<and>
   same_epoch ex_lib [ex_tick [(ex_line, ex_dev True), (ex_line, ex_dev True)]] init_plugin \<and>
   data_rows (run_scans ex_lib [ex_tick [(ex_line, ex_dev True), (ex_line, ex_dev True)]]
                init_plugin) = [ex_row] \<and>
   distinct (map (\<lambda>r. upper (row_addr r))
     (data_rows (run_scans ex_lib [ex_tick [(ex_line, ex_dev True), (ex_line, ex_dev True)]]
                   init_plugin))) \<and>
   data ex_logged ex_mac \<noteq> None \<and>
   scan_step zero_fix ''2024-01-01 12:00:00'' (ex_line, ex_dev True) ex_logged = ex_logged \<and>
   active_records (scan_step zero_fix ''2024-01-01 12:00:00'' (ex_line, ex_dev True) init_plugin)
     \<noteq> active_records init_plugin \<and>
   data init_plugin ex_mac = None \<and>
   data (scan_step zero_fix ''2024-01-01 12:00:00'' (ex_line, ex_dev True) init_plugin) ex_mac
     = Some ''2024-01-01 12:00:00''"
proof -
  let ?tk = "ex_tick [(ex_line, ex_dev True), (ex_line, ex_dev True)]"
  let ?le = "(ex_line, ex_dev True)"
  let ?t = "''2024-01-01 12:00:00''"
  have se: "same_epoch ex_lib [?tk] init_plugin" by (simp add: ex_twice_tick(1))
  have run: "run_scans ex_lib [?tk] init_plugin = ex_logged" by (simp add: ex_twice_tick(2))
  have rows: "data_rows (run_scans ex_lib [?tk] init_plugin) = [ex_row]"
    unfolding run by (simp add: data_rows_def ex_logged_records ex_row_data)
  have p: "parse_device (fst ?le) = Some (ex_mac, ''Phone'')" by (simp add: parse_ex_line)
  note a = one_row_per_address [OF init_plugin_inv se, of ?le ex_mac "''Phone''" ex_logged
      zero_fix ?t]
  note b = one_row_per_address [OF init_plugin_inv se, of ?le ex_mac "''Phone''" init_plugin
      zero_fix ?t]
  from a have d: "distinct (map (\<lambda>r. upper (row_addr r))
     (data_rows (run_scans ex_lib [?tk] init_plugin)))" ..
  from a p ex_logged_known have k: "scan_step zero_fix ?t ?le ex_logged = ex_logged" by blast
  have ch: "active_records (scan_step zero_fix ?t ?le init_plugin) \<noteq> active_records init_plugin"
    unfolding ex_first_step by (simp add: ex_logged_records init_plugin_fresh)
  from b ch obtain mac name where m: "parse_device (fst ?le) = Some (mac, name)"
    "data init_plugin mac = None" "data (scan_step zero_fix ?t ?le init_plugin) mac = Some ?t"
    by blast
  from m(1) p have "mac = ex_mac" by simp
  with m have n: "data init_plugin ex_mac = None"
    and i: "data (scan_step zero_fix ?t ?le init_plugin) ex_mac = Some ?t" by simp_all
  from init_plugin_inv se rows d ex_logged_known k ch n i show ?thesis by (intro conjI)
qed

text \<open>
  Claim C1 as stated does not hold in one direction: an address is inserted into the
  ledger also when its row is not produced, namely when the append fails.
\<close>

theorem ledger_entry_without_row:
  "parse_device ex_line = Some (ex_mac, ''Phone'') \<and>
   data init_plugin ex_mac = None \<and> \<not> append_ok (ex_dev False) \<and>
   data (scan_step zero_fix ''2024-01-01 12:00:00'' (ex_line, ex_dev False) init_plugin) ex_mac
     = Some ''2024-01-01 12:00:00'' \<and>
   active_records (scan_step zero_fix ''2024-01-01 12:00:00'' (ex_line, ex_dev False) init_plugin)
     = active_records init_plugin"
proof -
  have na: "\<not> append_ok (ex_dev False)" by (simp add: ex_dev_def)
  have s: "scan_step zero_fix ''2024-01-01 12:00:00'' (ex_line, ex_dev False) init_plugin =
           init_plugin\<lparr>data := (data init_plugin)(ex_mac \<mapsto> ''2024-01-01 12:00:00'')\<rparr>"
    by (rule scan_step_append_failed [OF _ ex_mac_not_blacklisted init_plugin_fresh(1)])
       (simp_all add: parse_ex_line na)
  have d: "data (scan_step zero_fix ''2024-01-01 12:00:00'' (ex_line, ex_dev False) init_plugin) ex_mac
     = Some ''2024-01-01 12:00:00''" unfolding s by simp
  have r: "active_records (scan_step zero_fix ''2024-01-01 12:00:00'' (ex_line, ex_dev False) init_plugin)
     = active_records init_plugin" unfolding s by (simp add: active_records_def)
  from parse_ex_line init_plugin_fresh(1) na d r show ?thesis by (intro conjI)
qed


text \<open>
  Claim C6, as the code has it. For an existing active file that starts with the preamble
  line and the header line and can be read, and a ledger that is empty, let the rows that
  count be those with at least one field whose address, stripped and uppercased, is
  neither empty nor \<open>MAC\<close>, and let their normalized addresses be pairwise different.
  Then \<open>_load_existing_devices\<close> leaves a ledger that tracks exactly the normalized
  addresses of these rows; each has the fourth field of its row as first-seen time if
  the row has one, and the clock reading otherwise. In particular, with N rows of at
  least four fields that all count, the ledger tracks N addresses, each with the time
  from the file.
\<close>

theorem bootstrap_ledger:
  assumes "read_ok env" and "map_of (fs st) (devices_file st) = Some n" and "regular n"
    and "startswith (first_line (body n)) ''WigleWifi''"
    and "records (body n) = pre # header # rows"
    and "data st = Map.empty"
    and "distinct (map row_key (filter tracked rows))"
  shows "dom (data (load_existing_devices env st)) = row_key ` set (filter tracked rows) \<and>
         (\<forall>j < length rows. tracked (rows ! j) \<longrightarrow>
            data (load_existing_devices env st) (row_key (rows ! j)) =
              Some (if 3 < length (rows ! j) then rows ! j ! 3 else utcnow env j)) \<and>
         (list_all (\<lambda>r. tracked r \<and> 3 < length r) rows \<longrightarrow>
            card (dom (data (load_existing_devices env st))) = length rows \<and>
            list_all (\<lambda>r. data (load_existing_devices env st) (row_key r) = Some (r ! 3)) rows)"
proof -
  note e = load_existing_devices_rows [OF assms(1-5)]
  have dm: "dom (data (load_existing_devices env st)) = row_key ` set (filter tracked rows)"
    by (simp add: e load_rows_dom assms(6))
  have v: "data (load_existing_devices env st) (row_key (rows ! j)) =
              Some (if 3 < length (rows ! j) then rows ! j ! 3 else utcnow env j)"
    if "j < length rows" "tracked (rows ! j)" for j
    using load_rows_value [OF assms(7) _ that, of "data st" "utcnow env" 0]
    by (simp add: e assms(6))
  have w: "card (dom (data (load_existing_devices env st))) = length rows \<and>
            list_all (\<lambda>r. data (load_existing_devices env st) (row_key r) = Some (r ! 3)) rows"
    if a: "list_all (\<lambda>r. tracked r \<and> 3 < length r) rows"
  proof
    from a have f: "filter tracked rows = rows" by (simp add: list_all_iff)
    with assms(7) have "distinct (map row_key rows)" by simp
    then have "card (set (map row_key rows)) = length rows"
      using distinct_card by fastforce
    then show "card (dom (data (load_existing_devices env st))) = length rows"
      by (simp add: dm f)
    show "list_all (\<lambda>r. data (load_existing_devices env st) (row_key r) = Some (r ! 3)) rows"
      unfolding list_all_length
    proof (intro allI impI)
      fix j assume j: "j < length rows"
      with a have "tracked (rows ! j)" "3 < length (rows ! j)" by (simp_all add: list_all_length)
      with v [OF j] show "data (load_existing_devices env st) (row_key (rows ! j)) = Some (rows ! j ! 3)"
        by simp
    qed
  qed
  from dm v w show ?thesis by blast
qed

theorem bootstrap_ledger_witness:
  "distinct (map row_key (filter tracked ex_rows)) \<and>
   dom (data (load_existing_devices ex_lenv (ex_existing ex_rows))) =
     {ex_mac, ''AA:BB:CC:DD:EE:01''} \<and>
   data (load_existing_devices ex_lenv (ex_existing ex_rows)) ex_mac
     = Some ''2024-01-01 12:00:00'' \<and>
   data (load_existing_devices ex_lenv (ex_existing ex_rows)) ''AA:BB:CC:DD:EE:01''
     = Some ''2024-01-01 12:30:00'' \<and>
   list_all (\<lambda>r. tracked r \<and> 3 < length r) [ex_row, ex_watch] \<and>
   card (dom (data (load_existing_devices ex_lenv (ex_existing [ex_row, ex_watch])))) = 2"
proof -
  have ne: "ex_mac \<noteq> ''AA:BB:CC:DD:EE:01''" by (simp add: ex_mac_def)
  have d: "distinct (map row_key (filter tracked ex_rows))"
    unfolding ex_rows_tracked using ne by (simp add: ex_rows_keys)
  note a = bootstrap_ledger [OF ex_lenv_fields(1) ex_existing_file(1) ex_existing_node
      ex_existing_file(2) d]
  have a': "dom (data (load_existing_devices ex_lenv (ex_existing ex_rows))) =
              row_key ` set (filter tracked ex_rows) \<and>
         (\<forall>j < length ex_rows. tracked (ex_rows ! j) \<longrightarrow>
            data (load_existing_devices ex_lenv (ex_existing ex_rows)) (row_key (ex_rows ! j)) =
              Some (if 3 < length (ex_rows ! j) then ex_rows ! j ! 3 else utcnow ex_lenv j))"
    using a by blast
  from a' have dm: "dom (data (load_existing_devices ex_lenv (ex_existing ex_rows))) =
     {ex_mac, ''AA:BB:CC:DD:EE:01''}"
    unfolding ex_rows_tracked by (simp add: ex_rows_keys)
  from a' have "tracked (ex_rows ! 0) \<longrightarrow>
            data (load_existing_devices ex_lenv (ex_existing ex_rows)) (row_key (ex_rows ! 0)) =
              Some (if 3 < length (ex_rows ! 0) then ex_rows ! 0 ! 3 else utcnow ex_lenv 0)"
    by (simp add: ex_rows_nth(3))
  then have v0: "data (load_existing_devices ex_lenv (ex_existing ex_rows)) ex_mac
     = Some ''2024-01-01 12:00:00''"
    unfolding ex_rows_nth(1) by (simp add: ex_rows_nth ex_rows_keys)
  from a' have "tracked (ex_rows ! 2) \<longrightarrow>
            data (load_existing_devices ex_lenv (ex_existing ex_rows)) (row_key (ex_rows ! 2)) =
              Some (if 3 < length (ex_rows ! 2) then ex_rows ! 2 ! 3 else utcnow ex_lenv 2)"
    by (simp add: ex_rows_nth(3))
  then have v2: "data (load_existing_devices ex_lenv (ex_existing ex_rows)) ''AA:BB:CC:DD:EE:01''
     = Some ''2024-01-01 12:30:00''"
    unfolding ex_rows_nth(2) by (simp add: ex_rows_nth ex_rows_keys)
  have wf: "list_all (\<lambda>r. tracked r \<and> 3 < length r) [ex_row, ex_watch]"
    by (simp add: ex_rows_nth)
  have d2: "distinct (map row_key (filter tracked [ex_row, ex_watch]))"
    using ne by (simp add: ex_rows_nth ex_rows_keys)
  note b = bootstrap_ledger [OF ex_lenv_fields(1) ex_existing_file(1) ex_existing_node
      ex_existing_file(2) d2]
  have "list_all (\<lambda>r. tracked r \<and> 3 < length r) [ex_row, ex_watch] \<longrightarrow>
        card (dom (data (load_existing_devices ex_lenv (ex_existing [ex_row, ex_watch])))) =
          length [ex_row, ex_watch]"
    using b by blast
  with wf have c: "card (dom (data (load_existing_devices ex_lenv (ex_existing [ex_row, ex_watch])))) = 2"
    by simp
  from d dm v0 v2 wf c show ?thesis by (intro conjI)
qed

text \<open>
  Claim C6 as stated does not hold for malformed rows: a row of a single field is not
  skipped, its address is tracked, with a freshly generated first-seen time.
\<close>

theorem short_row_tracked:
  "length [''aa:bb:cc:dd:ee:02''] = 1 \<and>
   data (load_existing_devices ex_lenv (ex_existing [[''aa:bb:cc:dd:ee:02'']]))
     ''AA:BB:CC:DD:EE:02'' = Some ''2024-02-02 00:00:00''"
proof -
  have e: "load_existing_devices ex_lenv (ex_existing [[''aa:bb:cc:dd:ee:02'']]) =
     (ex_existing [[''aa:bb:cc:dd:ee:02'']])\<lparr>data :=
        load_rows (utcnow ex_lenv) 0 [[''aa:bb:cc:dd:ee:02'']]
          (data (ex_existing [[''aa:bb:cc:dd:ee:02'']]))\<rparr>"
    by (rule load_existing_devices_rows [OF ex_lenv_fields(1) ex_existing_file(1) ex_existing_node])
  have "load_rows (utcnow ex_lenv) 0 [[''aa:bb:cc:dd:ee:02'']] Map.empty (row_key ([[''aa:bb:cc:dd:ee:02'']] ! 0))
     = Some (if 3 < length ([[''aa:bb:cc:dd:ee:02'']] ! 0) then [[''aa:bb:cc:dd:ee:02'']] ! 0 ! 3
             else utcnow ex_lenv (0 + 0))"
    by (rule load_rows_value) (simp_all add: short_key)
  then have "load_rows (utcnow ex_lenv) 0 [[''aa:bb:cc:dd:ee:02'']] Map.empty ''AA:BB:CC:DD:EE:02''
     = Some ''2024-02-02 00:00:00''"
    by (simp add: short_key ex_lenv_fields)
  then show ?thesis by (simp add: e ex_existing_file(2))
qed


text \<open>
  Claim C3, as the code has it. \<open>on_loaded\<close> uppercases the entries of the configured
  blacklist. For an address on the blacklist the state holds, a line of the listing with
  this (uppercased) address changes nothing, whatever the ledger holds: the blacklist is
  tested before the ledger. Over any sequence of scan ticks, rotations included, the scan
  adds no row with this address and no ledger entry for it: the rows with this address in
  the active file are those it had at the start or none, and the ledger entry of the
  address is the one it had at the start or none.
\<close>

theorem blacklisted_never_scanned:
  "(on_loaded oenv st0 = Inr st \<and> b \<in> set (blacklist st0) \<longrightarrow>
      List.member (blacklist st) (upper b)) \<and>
   (List.member (blacklist st) mac \<longrightarrow>
      (parse_device (fst le) = Some (mac, name) \<longrightarrow> scan_step fx t le st = st) \<and>
      (mac_rows mac (run_scans lib tks st) = mac_rows mac st \<or>
       mac_rows mac (run_scans lib tks st) = []) \<and>
      (data (run_scans lib tks st) mac = data st mac \<or>
       data (run_scans lib tks st) mac = None))"
proof (intro conjI impI)
  assume "on_loaded oenv st0 = Inr st \<and> b \<in> set (blacklist st0)"
  then show "List.member (blacklist st) (upper b)"
    using on_loaded_blacklist [of oenv st0 st] by auto
next
  assume m: "List.member (blacklist st) mac"
  show "scan_step fx t le st = st" if "parse_device (fst le) = Some (mac, name)"
    using m that by (rule blacklisted_step)
  from blacklisted_run [OF m, of lib tks]
  show "mac_rows mac (run_scans lib tks st) = mac_rows mac st \<or>
       mac_rows mac (run_scans lib tks st) = []"
    and "data (run_scans lib tks st) mac = data st mac \<or>
       data (run_scans lib tks st) mac = None"
    by simp_all
qed

theorem blacklisted_never_scanned_witness:
  "on_loaded ex_oenv ex_config = Inr ex_started \<and>
   ''aa:bb:cc:dd:ee:ff'' \<in> set (blacklist ex_config) \<and>
   List.member (blacklist ex_started) ''AA:BB:CC:DD:EE:FF'' \<and>
   parse_device ex_black_line = Some (''AA:BB:CC:DD:EE:FF'', ''Speaker'') \<and>
   scan_step zero_fix ''2024-01-01 12:00:00'' (ex_black_line, ex_dev True) ex_started = ex_started \<and>
   mac_rows ''AA:BB:CC:DD:EE:FF''
     (run_scans ex_lib [ex_tick [(ex_black_line, ex_dev True), (ex_black_line, ex_dev True)]]
        ex_started) = [] \<and>
   data (run_scans ex_lib [ex_tick [(ex_black_line, ex_dev True), (ex_black_line, ex_dev True)]]
           ex_started) ''AA:BB:CC:DD:EE:FF'' = None"
proof -
  let ?le = "(ex_black_line, ex_dev True)"
  let ?tks = "[ex_tick [(ex_black_line, ex_dev True), (ex_black_line, ex_dev True)]]"
  note inst = blacklisted_never_scanned [of ex_oenv ex_config ex_started "''aa:bb:cc:dd:ee:ff''"
      "''AA:BB:CC:DD:EE:FF''" ?le "''Speaker''" zero_fix "''2024-01-01 12:00:00''" ex_lib ?tks]
  have ol: "on_loaded ex_oenv ex_config = Inr ex_started \<and>
            ''aa:bb:cc:dd:ee:ff'' \<in> set (blacklist ex_config)"
    using ex_on_loaded ex_config_blacklist by (intro conjI)
  from inst [THEN conjunct1, THEN mp, OF ol]
  have "List.member (blacklist ex_started) (upper ''aa:bb:cc:dd:ee:ff'')" .
  then have m: "List.member (blacklist ex_started) ''AA:BB:CC:DD:EE:FF''"
    unfolding upper_black .
  note i2 = inst [THEN conjunct2, THEN mp, OF m]
  have p: "parse_device (fst ?le) = Some (''AA:BB:CC:DD:EE:FF'', ''Speaker'')"
    by (simp add: parse_black_line)
  from i2 [THEN conjunct1, THEN mp, OF p]
  have s: "scan_step zero_fix ''2024-01-01 12:00:00'' ?le ex_started = ex_started" .
  from i2 [THEN conjunct2, THEN conjunct1]
  have r: "mac_rows ''AA:BB:CC:DD:EE:FF'' (run_scans ex_lib ?tks ex_started) = []"
    unfolding ex_started_clean by simp
  from i2 [THEN conjunct2, THEN conjunct2]
  have d: "data (run_scans ex_lib ?tks ex_started) ''AA:BB:CC:DD:EE:FF'' = None"
    unfolding ex_started_clean by simp
  from ex_on_loaded ex_config_blacklist m parse_black_line s r d show ?thesis by (intro conjI)
qed

text \<open>
  Claim C3 as stated does not hold for every operation: \<open>_load_existing_devices\<close>, run by
  \<open>on_loaded\<close> on an existing file, does not consult the blacklist, and records in the
  ledger a blacklisted address that has a row in the file.
\<close>

theorem bootstrap_records_blacklisted:
  "List.member (blacklist (ex_existing [ex_black])) ''AA:BB:CC:DD:EE:FF'' \<and>
   data (ex_existing [ex_black]) ''AA:BB:CC:DD:EE:FF'' = None \<and>
   on_loaded ex_oenv (ex_existing [ex_black]) =
     Inr (load_existing_devices ex_lenv (ex_existing [ex_black])) \<and>
   data (load_existing_devices ex_lenv (ex_existing [ex_black])) ''AA:BB:CC:DD:EE:FF''
     = Some ''2024-01-01 10:00:00''"
proof -
  have e: "load_existing_devices ex_lenv (ex_existing [ex_black]) =
     (ex_existing [ex_black])\<lparr>data :=
        load_rows (utcnow ex_lenv) 0 [ex_black] (data (ex_existing [ex_black]))\<rparr>"
    by (rule load_existing_devices_rows [OF ex_lenv_fields(1) ex_existing_file(1) ex_existing_node])
  have "load_rows (utcnow ex_lenv) 0 [ex_black] Map.empty (row_key ([ex_black] ! 0))
     = Some (if 3 < length ([ex_black] ! 0) then [ex_black] ! 0 ! 3 else utcnow ex_lenv (0 + 0))"
    by (rule load_rows_value) (simp_all add: black_key)
  then have v: "load_rows (utcnow ex_lenv) 0 [ex_black] Map.empty ''AA:BB:CC:DD:EE:FF''
     = Some ''2024-01-01 10:00:00''"
    by (simp add: black_key)
  have n: "data (ex_existing [ex_black]) ''AA:BB:CC:DD:EE:FF'' = None"
    by (simp add: ex_existing_file(2))
  have l: "data (load_existing_devices ex_lenv (ex_existing [ex_black])) ''AA:BB:CC:DD:EE:FF''
     = Some ''2024-01-01 10:00:00''"
    using v by (simp add: e ex_existing_file(2))
  from ex_existing_blacklist n ex_existing_loaded l show ?thesis by (intro conjI)
qed





end
